theory Spec2Isabelle
  imports Complex_Main
begin

section \<open>Python strings and text files\<close>

text \<open>
  A Python \<open>str\<close> is modelled as a HOL \<open>string\<close>; a HOL character stands for the code
  point of the same number, so the model covers text in the range U+0000..U+00FF (the
  proxy files hold ASCII). Times (\<open>time.time()\<close>, \<open>datetime.now()\<close>) are real numbers
  of seconds.
\<close>

type_synonym time = real

text \<open>\<open>str.isspace\<close> on the code points below 256.\<close>

definition is_space :: "char \<Rightarrow> bool" where
  "is_space c = (c \<in> set [CHR 0x09, CHR 0x0A, CHR 0x0B, CHR 0x0C, CHR 0x0D,
     CHR 0x1C, CHR 0x1D, CHR 0x1E, CHR 0x1F, CHR 0x20, CHR 0x85, CHR 0xA0])"

text \<open>\<open>s.strip()\<close>: leading and trailing whitespace removed.\<close>

definition strip :: "string \<Rightarrow> string" where
  "strip s = rev (dropWhile is_space (rev (dropWhile is_space s)))"

text \<open>\<open>s.startswith(p)\<close>.\<close>

definition startswith :: "string \<Rightarrow> string \<Rightarrow> bool" where
  "startswith s p = (take (length p) s = p)"

text \<open>\<open>p in s\<close> for strings: \<open>p\<close> occurs in \<open>s\<close> as a contiguous substring.\<close>

fun contains :: "string \<Rightarrow> string \<Rightarrow> bool" where
  "contains p [] = (p = [])"
| "contains p (c # cs) = (startswith (c # cs) p \<or> contains p cs)"

text \<open>\<open>s.split('#')[0]\<close>: the text before the first \<open>#\<close> (all of \<open>s\<close> when there is none).\<close>

definition before_hash :: "string \<Rightarrow> string" where
  "before_hash s = takeWhile (\<lambda>c. c \<noteq> CHR ''#'') s"

text \<open>
  A text file is its content after decoding and newline translation, or \<open>None\<close> when the
  file does not exist. \<open>for line in f\<close> yields the lines with their terminating newline
  (the last line may lack one).
\<close>

fun file_lines :: "string \<Rightarrow> string list" where
  "file_lines [] = []"
| "file_lines (c # cs) =
     (if c = CHR 0x0A then [c] # file_lines cs
      else (case file_lines cs of [] \<Rightarrow> [[c]] | l # ls \<Rightarrow> (c # l) # ls))"

definition read_lines :: "string option \<Rightarrow> string list" where
  "read_lines f = (case f of None \<Rightarrow> [] | Some content \<Rightarrow> file_lines content)"

text \<open>\<open>s.partition(sep)\<close> and \<open>s.rpartition(sep)\<close> for a one-character separator.\<close>

definition partition_chr :: "char \<Rightarrow> string \<Rightarrow> string \<times> bool \<times> string" where
  "partition_chr sep s =
     (let h = takeWhile (\<lambda>c. c \<noteq> sep) s in
      if length h < length s then (h, True, drop (Suc (length h)) s) else (s, False, []))"

definition rpartition_chr :: "char \<Rightarrow> string \<Rightarrow> string \<times> bool \<times> string" where
  "rpartition_chr sep s =
     (case partition_chr sep (rev s) of
        (t, found, h) \<Rightarrow> if found then (rev h, True, rev t) else ([], False, s))"

text \<open>\<open>s.split(sep)\<close> for a one-character separator.\<close>

fun split_chr :: "char \<Rightarrow> string \<Rightarrow> string list" where
  "split_chr sep [] = [[]]"
| "split_chr sep (c # cs) =
     (if c = sep then [] # split_chr sep cs
      else (case split_chr sep cs of [] \<Rightarrow> [[c]] | p # ps \<Rightarrow> (c # p) # ps))"

text \<open>\<open>str.lower\<close> on the code points below 256: A--Z, and U+00C0..U+00DE but U+00D7.\<close>

definition lower_chr :: "char \<Rightarrow> char" where
  "lower_chr c =
     (let n = (of_char c :: nat) in
      if (65 \<le> n \<and> n \<le> 90) \<or> (192 \<le> n \<and> n \<le> 222 \<and> n \<noteq> 215)
      then char_of (n + 32) else c)"

definition lower :: "string \<Rightarrow> string" where
  "lower s = map lower_chr s"

definition ascii_digit :: "char \<Rightarrow> bool" where
  "ascii_digit c = (48 \<le> (of_char c :: nat) \<and> (of_char c :: nat) \<le> 57)"

definition ascii_alpha :: "char \<Rightarrow> bool" where
  "ascii_alpha c =
     (let n = (of_char c :: nat) in (65 \<le> n \<and> n \<le> 90) \<or> (97 \<le> n \<and> n \<le> 122))"

text \<open>\<open>int(s)\<close> on a string of ASCII digits, and \<open>str(n)\<close> for a natural number.\<close>

definition int_of_digits :: "string \<Rightarrow> nat" where
  "int_of_digits s = foldl (\<lambda>a c. 10 * a + ((of_char c :: nat) - 48)) 0 s"

fun str_nat :: "nat \<Rightarrow> string" where
  "str_nat n =
     (if n < 10 then [''0123456789'' ! n]
      else str_nat (n div 10) @ [''0123456789'' ! (n mod 10)])"

declare str_nat.simps [simp del]

section \<open>The URL parser (Python's urllib.parse)\<close>

datatype py_error = ValueError

text \<open>
  \<open>urlparse\<close> belongs to Python's standard library, not to the repository; it is modelled
  after CPython's \<open>urllib/parse.py\<close>, on the two components the repository reads
  (scheme and network location). What the library accepts between square brackets
  depends on its version (nothing is checked before 3.11.4, later versions consult the
  \<open>ipaddress\<close> module): that check is the parameter \<open>bracketed_ok\<close>, applied to the network
  location when it holds both brackets. \<open>_checknetloc\<close> raises on no text of code points
  below 256 and is left out.
\<close>

record split_result =
  scheme :: string
  netloc :: string

definition c0_control_or_space :: "char \<Rightarrow> bool" where
  "c0_control_or_space c = ((of_char c :: nat) \<le> 32)"

definition unsafe_url_byte :: "char \<Rightarrow> bool" where
  "unsafe_url_byte c = (c \<in> set [CHR 0x09, CHR 0x0D, CHR 0x0A])"

definition scheme_char :: "char \<Rightarrow> bool" where
  "scheme_char c = (ascii_alpha c \<or> ascii_digit c \<or> c \<in> set ''+-.'')"

definition netloc_delim :: "char \<Rightarrow> bool" where
  "netloc_delim c = (c \<in> set ''/?#'')"

definition urlsplit :: "(string \<Rightarrow> bool) \<Rightarrow> string \<Rightarrow> py_error + split_result" where
  "urlsplit bracketed_ok url0 =
     (let url1 = dropWhile c0_control_or_space url0;
          url2 = filter (\<lambda>c. \<not> unsafe_url_byte c) url1;
          pre = takeWhile (\<lambda>c. c \<noteq> CHR '':'') url2;
          has_scheme = (length pre < length url2 \<and> pre \<noteq> [] \<and> ascii_alpha (hd url2)
                          \<and> list_all scheme_char pre);
          url3 = (if has_scheme then drop (Suc (length pre)) url2 else url2);
          sch = (if has_scheme then lower pre else [])
      in if take 2 url3 = ''//'' then
           (let nl = takeWhile (\<lambda>c. \<not> netloc_delim c) (drop 2 url3);
                opening = (CHR ''['' \<in> set nl);
                closing = (CHR '']'' \<in> set nl)
            in if opening \<noteq> closing then Inl ValueError
               else if opening \<and> closing \<and> \<not> bracketed_ok nl then Inl ValueError
               else Inr \<lparr>scheme = sch, netloc = nl\<rparr>)
         else Inr \<lparr>scheme = sch, netloc = []\<rparr>)"

text \<open>\<open>urlparse\<close> splits the path's parameters off; scheme and netloc are \<open>urlsplit\<close>'s.\<close>

definition urlparse :: "(string \<Rightarrow> bool) \<Rightarrow> string \<Rightarrow> py_error + split_result" where
  "urlparse bracketed_ok url = urlsplit bracketed_ok url"

text \<open>The properties \<open>_userinfo\<close>, \<open>_hostinfo\<close>, \<open>username\<close>, \<open>password\<close>, \<open>hostname\<close>, \<open>port\<close>.\<close>

definition userinfo :: "split_result \<Rightarrow> string option \<times> string option" where
  "userinfo parsed =
     (case rpartition_chr CHR ''@'' (netloc parsed) of
        (info, have_info, hostpart) \<Rightarrow>
          if have_info then
            (case partition_chr CHR '':'' info of
               (user, have_password, pass) \<Rightarrow>
                 (Some user, if have_password then Some pass else None))
          else (None, None))"

definition username :: "split_result \<Rightarrow> string option" where
  "username parsed = fst (userinfo parsed)"

definition password :: "split_result \<Rightarrow> string option" where
  "password parsed = snd (userinfo parsed)"

definition hostinfo :: "split_result \<Rightarrow> string \<times> string option" where
  "hostinfo parsed =
     (case rpartition_chr CHR ''@'' (netloc parsed) of
        (info, have_info, hostpart) \<Rightarrow>
          (case partition_chr CHR ''['' hostpart of
             (before, have_open_br, bracketed) \<Rightarrow>
               (let (host, prt) =
                      (if have_open_br then
                         (case partition_chr CHR '']'' bracketed of
                            (h, have_close, after) \<Rightarrow>
                              (case partition_chr CHR '':'' after of
                                 (junk, have_colon, p) \<Rightarrow> (h, p)))
                       else
                         (case partition_chr CHR '':'' hostpart of
                            (h, have_colon, p) \<Rightarrow> (h, p)))
                in (host, if prt = [] then None else Some prt))))"

definition hostname :: "split_result \<Rightarrow> string option" where
  "hostname parsed =
     (let host = fst (hostinfo parsed) in
      if host = [] then None
      else (case partition_chr CHR ''%'' host of
              (h, percent, zone) \<Rightarrow>
                Some (lower h @ (if percent then ''%'' else []) @ zone)))"

text \<open>
  \<open>port\<close>: \<open>int(port)\<close> refuses more than 4300 digits (the interpreter's limit on
  converting a string to an integer), and the property a value above 65535.
\<close>

definition port :: "split_result \<Rightarrow> py_error + nat option" where
  "port parsed =
     (case snd (hostinfo parsed) of
        None \<Rightarrow> Inr None
      | Some p \<Rightarrow>
          if list_all ascii_digit p \<and> length p \<le> 4300 then
            (let n = int_of_digits p in if n \<le> 65535 then Inr (Some n) else Inl ValueError)
          else Inl ValueError)"

section \<open>The proxy normalizer (sites/canadavisa.py)\<close>

text \<open>
  The pattern \<open>^(\d{1,3}\.){3}\d{1,3}$\<close> against a host name: four groups of one to
  three digits, separated by dots.
\<close>

definition ip_pattern :: "string \<Rightarrow> bool" where
  "ip_pattern host =
     (let groups = split_chr CHR ''.'' host in
      length groups = 4 \<and>
      list_all (\<lambda>g. 1 \<le> length g \<and> length g \<le> 3 \<and> list_all ascii_digit g) groups)"

definition octets_in_range :: "string \<Rightarrow> bool" where
  "octets_in_range host =
     list_all (\<lambda>octet. int_of_digits octet \<le> 255) (split_chr CHR ''.'' host)"

definition normalize_proxy_url :: "(string \<Rightarrow> bool) \<Rightarrow> string \<Rightarrow> string option" where
  "normalize_proxy_url bracketed_ok proxy_line =
     (let proxy = strip proxy_line in
      if proxy = [] then None
      else
        (let proxy = (if startswith proxy ''http://'' \<or> startswith proxy ''https://''
                      then proxy else ''http://'' @ proxy)
         in case urlparse bracketed_ok proxy of
              Inl e \<Rightarrow> None
            | Inr parsed \<Rightarrow>
                (case hostname parsed of
                   None \<Rightarrow> None
                 | Some host \<Rightarrow>
                     (case port parsed of
                        Inl e \<Rightarrow> None
                      | Inr None \<Rightarrow> None
                      | Inr (Some prt) \<Rightarrow>
                          if prt = 0 then None
                          else if \<not> (1 \<le> prt \<and> prt \<le> 65535) then None
                          else if ip_pattern host \<and> \<not> octets_in_range host then None
                          else
                            (case (username parsed, password parsed) of
                               (Some user, Some pass) \<Rightarrow>
                                 if user \<noteq> [] \<and> pass \<noteq> [] then
                                   Some (scheme parsed @ ''://'' @ user @ '':'' @ pass @ ''@''
                                         @ host @ '':'' @ str_nat prt)
                                 else Some (scheme parsed @ ''://'' @ host @ '':'' @ str_nat prt)
                             | _ \<Rightarrow>
                                 Some (scheme parsed @ ''://'' @ host @ '':'' @ str_nat prt))))))"

section \<open>ProxyManager (proxy\_manager.py)\<close>

text \<open>
  The JSON cache \<open>proxy_pool.json\<close>. \<open>Unreadable\<close> is any content on which
  \<open>json.load\<close> or \<open>datetime.fromisoformat\<close> raises; in a readable document the keys
  \<open>last_updated\<close> and \<open>valid_proxies\<close> may be absent (\<open>cached_data.get\<close> has defaults).
\<close>

record cache_data =
  last_updated :: "time option"
  valid_proxies :: "string list option"
  tested_count :: nat
  total_pool_count :: nat

datatype cache_file = Unreadable | Json cache_data

text \<open>
  The manager's state: the three files it reads and writes and the in-memory cooldown
  records. File operations are taken to succeed (the \<open>except\<close> branches for I/O errors
  are not part of the model).
\<close>

record proxy_manager =
  proxy_pool_file :: "string option"
  blacklist_file :: "string option"
  valid_proxy_pool_file :: "cache_file option"
  last_tested_proxies :: "string \<Rightarrow> time option"
  stop_background :: bool

definition test_cooldown :: time where
  "test_cooldown = 300"

definition update_interval :: time where
  "update_interval = 60"

text \<open>The default \<open>'2000-01-01'\<close> of a missing \<open>last_updated\<close>, in seconds since the epoch.\<close>

definition default_cache_time :: time where
  "default_cache_time = 946684800"

text \<open>The line filter shared by the readers: stripped text non-empty and not a comment.\<close>

definition is_entry :: "string \<Rightarrow> bool" where
  "is_entry line = (line \<noteq> [] \<and> \<not> startswith line ''#'')"

text \<open>The loop of \<open>_calculate_valid_proxies\<close> over the pool file; \<open>pool.add(line)\<close>.\<close>

fun pool_loop :: "string list \<Rightarrow> string set \<Rightarrow> string set" where
  "pool_loop [] pool = pool"
| "pool_loop (raw # rest) pool =
     (let line = strip raw in
      if is_entry line then pool_loop rest (insert line pool) else pool_loop rest pool)"

text \<open>The loop over the blacklist file; \<open>blacklist.add(proxy_url)\<close> when non-empty.\<close>

fun blacklist_loop :: "string list \<Rightarrow> string set \<Rightarrow> string set" where
  "blacklist_loop [] blacklist = blacklist"
| "blacklist_loop (raw # rest) blacklist =
     (let line = strip raw in
      if is_entry line then
        (let proxy_url = strip (before_hash line) in
         if proxy_url \<noteq> [] then blacklist_loop rest (insert proxy_url blacklist)
         else blacklist_loop rest blacklist)
      else blacklist_loop rest blacklist)"

text \<open>
  \<open>list(pool - blacklist)\<close>: Python leaves the order of a set's elements open. The model
  lists them in the order of their last occurrence in the pool file. The general
  statements below depend only on the elements and on the absence of duplicates; the
  instances on concrete inputs show the list in the model's order, of which the code may
  return any permutation.
\<close>

definition pool_entries :: "proxy_manager \<Rightarrow> string list" where
  "pool_entries pm = filter is_entry (map strip (read_lines (proxy_pool_file pm)))"

definition calculate_valid_proxies :: "proxy_manager \<Rightarrow> string list" where
  "calculate_valid_proxies pm =
     (let pool = pool_loop (read_lines (proxy_pool_file pm)) {};
          blacklist = blacklist_loop (read_lines (blacklist_file pm)) {}
      in remdups (filter (\<lambda>p. p \<in> pool - blacklist) (pool_entries pm)))"

text \<open>
  \<open>load_valid_proxies\<close> at wall-clock time \<open>now\<close>. It returns the list together with the
  manager's state, which it leaves as it found it: the function writes no file.
\<close>

definition load_valid_proxies :: "time \<Rightarrow> proxy_manager \<Rightarrow> string list \<times> proxy_manager" where
  "load_valid_proxies now pm =
     (case valid_proxy_pool_file pm of
        None \<Rightarrow> (calculate_valid_proxies pm, pm)
      | Some Unreadable \<Rightarrow> (calculate_valid_proxies pm, pm)
      | Some (Json cached_data) \<Rightarrow>
          (let cache_time = (case last_updated cached_data of
                               None \<Rightarrow> default_cache_time | Some t \<Rightarrow> t)
           in if now - cache_time < 5 * 60
              then (case valid_proxies cached_data of None \<Rightarrow> [] | Some v \<Rightarrow> v, pm)
              else (calculate_valid_proxies pm, pm)))"

text \<open>\<open>_save_valid_proxy_cache\<close> at time \<open>now\<close>; \<open>tested_proxies\<close> defaults to \<open>None\<close>.\<close>

definition save_valid_proxy_cache ::
  "time \<Rightarrow> string list \<Rightarrow> string list option \<Rightarrow> proxy_manager \<Rightarrow> proxy_manager" where
  "save_valid_proxy_cache now valid tested_proxies pm =
     pm\<lparr>valid_proxy_pool_file := Some (Json
         \<lparr>last_updated = Some now,
          valid_proxies = Some valid,
          tested_count = (case tested_proxies of None \<Rightarrow> 0 | Some t \<Rightarrow> length t),
          total_pool_count = length valid\<rparr>)\<rparr>"

text \<open>\<open>_invalidate_cache\<close>: the cache file is removed when it exists.\<close>

definition invalidate_cache :: "proxy_manager \<Rightarrow> proxy_manager" where
  "invalidate_cache pm = pm\<lparr>valid_proxy_pool_file := None\<rparr>"

text \<open>The identities \<open>add_to_blacklist\<close> reads from the blacklist file.\<close>

fun existing_loop :: "string list \<Rightarrow> string set \<Rightarrow> string set" where
  "existing_loop [] existing = existing"
| "existing_loop (raw # rest) existing =
     (let line = strip raw in
      if is_entry line then existing_loop rest (insert (strip (before_hash line)) existing)
      else existing_loop rest existing)"

text \<open>The line \<open>f"{proxy_url}  # {reason} - {timestamp}\n"\<close>; \<open>stamp\<close> is the formatted time.\<close>

definition blacklist_line :: "string \<Rightarrow> string \<Rightarrow> string \<Rightarrow> string" where
  "blacklist_line proxy_url reason stamp =
     proxy_url @ ''  # '' @ reason @ '' - '' @ stamp @ [CHR 0x0A]"

definition append_file :: "string option \<Rightarrow> string \<Rightarrow> string option" where
  "append_file f s = (case f of None \<Rightarrow> Some s | Some content \<Rightarrow> Some (content @ s))"

definition add_to_blacklist ::
  "string \<Rightarrow> string \<Rightarrow> string \<Rightarrow> proxy_manager \<Rightarrow> bool \<times> proxy_manager" where
  "add_to_blacklist proxy_url reason stamp pm =
     (let existing_blacklist = existing_loop (read_lines (blacklist_file pm)) {} in
      if proxy_url \<notin> existing_blacklist then
        (True, invalidate_cache
           (pm\<lparr>blacklist_file :=
                 append_file (blacklist_file pm) (blacklist_line proxy_url reason stamp)\<rparr>))
      else (False, pm))"

text \<open>
  \<open>remove_from_blacklist\<close>: the loop keeps a raw line unless it is an entry in which
  \<open>proxy_url\<close> occurs (\<open>proxy_url in line_stripped\<close>), and records whether one was dropped.
\<close>

fun remove_loop :: "string \<Rightarrow> string list \<Rightarrow> string list \<times> bool \<Rightarrow> string list \<times> bool" where
  "remove_loop proxy_url [] acc = acc"
| "remove_loop proxy_url (line # rest) (lines, removed) =
     (let line_stripped = strip line in
      if is_entry line_stripped \<and> contains proxy_url line_stripped
      then remove_loop proxy_url rest (lines, True)
      else remove_loop proxy_url rest (lines @ [line], removed))"

definition remove_from_blacklist :: "string \<Rightarrow> proxy_manager \<Rightarrow> bool \<times> proxy_manager" where
  "remove_from_blacklist proxy_url pm =
     (case blacklist_file pm of
        None \<Rightarrow> (False, pm)
      | Some content \<Rightarrow>
          (case remove_loop proxy_url (file_lines content) ([], False) of
             (lines, removed) \<Rightarrow>
               if removed
               then (True, invalidate_cache (pm\<lparr>blacklist_file := Some (concat lines)\<rparr>))
               else (False, pm)))"

text \<open>
  \<open>random.sample(population, k)\<close>: \<open>k\<close> draws without replacement, each draw taken from
  the random numbers \<open>rnds\<close>; a negative \<open>k\<close>, or one above the population's size, raises.
\<close>

fun draw :: "nat list \<Rightarrow> 'a list \<Rightarrow> nat \<Rightarrow> 'a list" where
  "draw rnds xs 0 = []"
| "draw rnds xs (Suc k) =
     (if xs = [] then []
      else (let j = (case rnds of [] \<Rightarrow> 0 | r # rs \<Rightarrow> r mod length xs)
            in xs ! j # draw (tl rnds) (take j xs @ drop (Suc j) xs) k))"

definition random_sample :: "nat list \<Rightarrow> 'a list \<Rightarrow> int \<Rightarrow> py_error + 'a list" where
  "random_sample rnds population k =
     (if k < 0 \<or> int (length population) < k then Inl ValueError
      else Inr (draw rnds population (nat k)))"

text \<open>
  The cooldown loop of \<open>test_and_filter_proxies\<close>: a proxy whose last test lies at least
  \<open>_test_cooldown\<close> back is appended, and the loop breaks once \<open>len(test_proxies) >= max_test\<close>.
\<close>

fun cooldown_loop ::
  "(string \<Rightarrow> time option) \<Rightarrow> time \<Rightarrow> int \<Rightarrow> string list \<Rightarrow> string list \<Rightarrow> string list" where
  "cooldown_loop tested current_time max_test [] test_proxies = test_proxies"
| "cooldown_loop tested current_time max_test (proxy_url # rest) test_proxies =
     (let last_test = (case tested proxy_url of None \<Rightarrow> 0 | Some t \<Rightarrow> t) in
      if current_time - last_test \<ge> test_cooldown then
        (if int (length (test_proxies @ [proxy_url])) \<ge> max_test
         then test_proxies @ [proxy_url]
         else cooldown_loop tested current_time max_test rest (test_proxies @ [proxy_url]))
      else cooldown_loop tested current_time max_test rest test_proxies)"

text \<open>What one call meets: the two clock readings, the random draws, the probes' results.\<close>

datatype response = Status int | RequestFailed

record test_env =
  select_time :: time
  sample_rnds :: "nat list"
  probe_time :: time
  probe :: "string \<Rightarrow> response"

text \<open>The batch \<open>test_proxies\<close> that \<open>test_and_filter_proxies\<close> selects for probing.\<close>

definition select_test_proxies ::
  "test_env \<Rightarrow> string list \<Rightarrow> int \<Rightarrow> bool \<Rightarrow> proxy_manager \<Rightarrow> py_error + string list" where
  "select_test_proxies env proxies max_test respect_cooldown pm =
     (if respect_cooldown
      then Inr (cooldown_loop (last_tested_proxies pm) (select_time env) max_test proxies [])
      else random_sample (sample_rnds env) proxies (min (int (length proxies)) max_test))"

text \<open>The probing loop: the test time is recorded first, a status of 200 counts as working.\<close>

fun probe_loop ::
  "(string \<Rightarrow> response) \<Rightarrow> time \<Rightarrow> string list \<Rightarrow> string list \<times> (string \<Rightarrow> time option)
     \<Rightarrow> string list \<times> (string \<Rightarrow> time option)" where
  "probe_loop prb current_time [] acc = acc"
| "probe_loop prb current_time (proxy_url # rest) (working_proxies, tested) =
     (let tested' = tested(proxy_url \<mapsto> current_time);
          proxy = (if \<not> startswith proxy_url ''http://'' then ''http://'' @ proxy_url
                   else proxy_url)
      in case prb proxy of
           Status code \<Rightarrow>
             if code = 200
             then probe_loop prb current_time rest (working_proxies @ [proxy_url], tested')
             else probe_loop prb current_time rest (working_proxies, tested')
         | RequestFailed \<Rightarrow> probe_loop prb current_time rest (working_proxies, tested'))"

definition test_and_filter_proxies ::
  "test_env \<Rightarrow> string list \<Rightarrow> int \<Rightarrow> bool \<Rightarrow> proxy_manager
     \<Rightarrow> py_error + (string list \<times> proxy_manager)" where
  "test_and_filter_proxies env proxies max_test respect_cooldown pm =
     (case select_test_proxies env proxies max_test respect_cooldown pm of
        Inl e \<Rightarrow> Inl e
      | Inr test_proxies \<Rightarrow>
          if test_proxies = [] then Inr ([], pm)
          else (case probe_loop (probe env) (probe_time env) test_proxies
                       ([], last_tested_proxies pm) of
                  (working_proxies, tested) \<Rightarrow>
                    Inr (working_proxies, pm\<lparr>last_tested_proxies := tested\<rparr>)))"

text \<open>
  One pass of the \<open>while\<close> loop of \<open>_background_proxy_updater\<close> (the sleeping apart);
  an exception inside the pass is caught and logged by the loop.
\<close>

record cycle_env =
  testing :: test_env
  save_time :: time

definition background_cycle :: "cycle_env \<Rightarrow> proxy_manager \<Rightarrow> proxy_manager" where
  "background_cycle env pm =
     (let valid = calculate_valid_proxies pm in
      if valid \<noteq> [] then
        (case test_and_filter_proxies (testing env) valid 10 True pm of
           Inl e \<Rightarrow> pm
         | Inr (working_proxies, pm') \<Rightarrow>
             save_valid_proxy_cache (save_time env) valid (Some working_proxies) pm')
      else pm)"

text \<open>The loop itself, over the passes it gets to make before the stop flag is seen.\<close>

fun background_proxy_updater :: "cycle_env list \<Rightarrow> proxy_manager \<Rightarrow> proxy_manager" where
  "background_proxy_updater [] pm = pm"
| "background_proxy_updater (env # envs) pm =
     (if stop_background pm then pm
      else background_proxy_updater envs (background_cycle env pm))"

text \<open>
  \<open>get_stats\<close>: the counts and the rate (the number that \<open>success_rate\<close> prints with one
  decimal, or the text \<open>0%\<close>). The fields on the background thread are left out.
\<close>

datatype rate = Percent real | ZeroPercent

record stats =
  pool_total :: nat
  blacklisted :: nat
  valid_count :: nat
  success_rate :: rate
  cache_available :: bool

definition counted :: "string \<Rightarrow> bool" where
  "counted line = (strip line \<noteq> [] \<and> \<not> startswith line ''#'')"

definition get_stats :: "time \<Rightarrow> proxy_manager \<Rightarrow> stats" where
  "get_stats now pm =
     (let pool_count = length (filter counted (read_lines (proxy_pool_file pm)));
          blacklist_count = length (filter counted (read_lines (blacklist_file pm)));
          valid = length (fst (load_valid_proxies now pm))
      in \<lparr>pool_total = pool_count,
          blacklisted = blacklist_count,
          valid_count = valid,
          success_rate = (if pool_count > 0
                          then Percent (real valid / real pool_count * 100) else ZeroPercent),
          cache_available = (valid_proxy_pool_file pm \<noteq> None)\<rparr>)"

section \<open>USVisaChecker (sites/usvisa.py)\<close>

text \<open>
  The checker's state. \<open>__init__\<close> sets \<open>max_proxy_failures\<close> to 1; it is a field here,
  as it is an attribute there, so that statements can speak of any threshold.
\<close>

record us_visa_checker =
  manager :: proxy_manager
  proxies :: "string list"
  blacklisted_proxies :: "string set"
  failed_proxy_attempts :: "string \<Rightarrow> int option"
  max_proxy_failures :: int

text \<open>The check \<open>parsed.hostname and parsed.port\<close>; a \<open>ValueError\<close> counts as a failed check.\<close>

definition proxy_url_ok :: "(string \<Rightarrow> bool) \<Rightarrow> string \<Rightarrow> bool" where
  "proxy_url_ok bracketed_ok proxy_url =
     (case urlparse bracketed_ok proxy_url of
        Inl e \<Rightarrow> False
      | Inr parsed \<Rightarrow>
          (case hostname parsed of
             None \<Rightarrow> False
           | Some host \<Rightarrow>
               (case port parsed of
                  Inl e \<Rightarrow> False
                | Inr None \<Rightarrow> False
                | Inr (Some prt) \<Rightarrow> prt \<noteq> 0)))"

text \<open>
  \<open>_get_random_proxy\<close> at time \<open>now\<close>; \<open>random.choice\<close> picks by the random number \<open>rnd\<close>.
  The result is the proxy URL of the returned dictionary, or \<open>None\<close>.
\<close>

definition get_random_proxy ::
  "(string \<Rightarrow> bool) \<Rightarrow> time \<Rightarrow> nat \<Rightarrow> us_visa_checker \<Rightarrow> string option \<times> us_visa_checker" where
  "get_random_proxy bracketed_ok now rnd st =
     (case load_valid_proxies now (manager st) of
        (loaded, pm) \<Rightarrow>
          (let st1 = st\<lparr>manager := pm, proxies := loaded\<rparr> in
           if loaded = [] then (None, st1)
           else
             (let available_proxies = filter (\<lambda>p. p \<notin> blacklisted_proxies st1) loaded in
              if available_proxies = [] then (None, st1)
              else
                (let proxy_url = available_proxies ! (rnd mod length available_proxies) in
                 if proxy_url_ok bracketed_ok proxy_url then (Some proxy_url, st1)
                 else (None, st1\<lparr>blacklisted_proxies :=
                                    insert proxy_url (blacklisted_proxies st1)\<rparr>)))))"

text \<open>\<open>_handle_proxy_failure\<close>; \<open>stamp\<close> is the time text that \<open>add_to_blacklist\<close> writes.\<close>

definition handle_proxy_failure ::
  "string \<Rightarrow> string \<Rightarrow> string \<Rightarrow> us_visa_checker \<Rightarrow> us_visa_checker" where
  "handle_proxy_failure proxy_url error_type stamp st =
     (let fail_count = (case failed_proxy_attempts st proxy_url of None \<Rightarrow> 0 | Some n \<Rightarrow> n) + 1;
          st1 = st\<lparr>failed_proxy_attempts := (failed_proxy_attempts st)(proxy_url \<mapsto> fail_count)\<rparr>
      in if fail_count \<ge> max_proxy_failures st1 then
           (let st2 = st1\<lparr>manager := snd (add_to_blacklist proxy_url error_type stamp (manager st1))\<rparr>;
                st3 = st2\<lparr>blacklisted_proxies := insert proxy_url (blacklisted_proxies st2)\<rparr>;
                st4 = (if proxy_url \<in> set (proxies st3)
                       then st3\<lparr>proxies := remove1 proxy_url (proxies st3)\<rparr> else st3)
            in st4\<lparr>failed_proxy_attempts := (failed_proxy_attempts st4)(proxy_url := None)\<rparr>)
         else st1)"

text \<open>
  How the HTTP request of \<open>_make_request\<close> ends: a response after \<open>delay\<close> seconds (with
  the text of \<open>delay\<close> to two decimals, which goes into the failure reason), or one of the
  exceptions the function catches, a \<open>ConnectionError\<close> with its message.
\<close>

datatype request_outcome =
    Completed time string
  | ProxyError
  | SSLError
  | ConnectionError string
  | Timeout
  | RequestException
  | OtherException

definition connection_error_type :: "string \<Rightarrow> string" where
  "connection_error_type message =
     (let error_msg = lower message in
      if contains ''getaddrinfo failed'' error_msg then ''getaddrinfo failed''
      else if contains ''unable to connect to proxy'' error_msg then ''unable to connect''
      else if contains ''httpsconnectionpool'' error_msg then ''HTTPSConnectionPool''
      else ''ConnectionError'')"

definition report_failure ::
  "string option \<Rightarrow> string \<Rightarrow> string \<Rightarrow> us_visa_checker \<Rightarrow> us_visa_checker" where
  "report_failure proxy error_type stamp st =
     (case proxy of None \<Rightarrow> st | Some proxy_url \<Rightarrow> handle_proxy_failure proxy_url error_type stamp st)"

text \<open>\<open>_make_request\<close>: the result tells whether a response is returned.\<close>

definition make_request ::
  "(string \<Rightarrow> bool) \<Rightarrow> time \<Rightarrow> nat \<Rightarrow> request_outcome \<Rightarrow> string \<Rightarrow> us_visa_checker
     \<Rightarrow> bool \<times> us_visa_checker" where
  "make_request bracketed_ok now rnd outcome stamp st =
     (case get_random_proxy bracketed_ok now rnd st of
        (proxy, st1) \<Rightarrow>
          (case outcome of
             Completed delay shown \<Rightarrow>
               if delay > 2.0 then
                 (True, report_failure proxy (''SlowResponse ('' @ shown @ ''s)'') stamp st1)
               else
                 (case proxy of
                    None \<Rightarrow> (True, st1)
                  | Some proxy_url \<Rightarrow>
                      if failed_proxy_attempts st1 proxy_url \<noteq> None
                      then (True, st1\<lparr>failed_proxy_attempts :=
                                         (failed_proxy_attempts st1)(proxy_url := None)\<rparr>)
                      else (True, st1))
           | ProxyError \<Rightarrow> (False, report_failure proxy ''ProxyError'' stamp st1)
           | SSLError \<Rightarrow> (False, report_failure proxy ''SSLError'' stamp st1)
           | ConnectionError message \<Rightarrow>
               (False, report_failure proxy (connection_error_type message) stamp st1)
           | Timeout \<Rightarrow> (False, report_failure proxy ''Timeout'' stamp st1)
           | RequestException \<Rightarrow> (False, report_failure proxy ''RequestException'' stamp st1)
           | OtherException \<Rightarrow> (False, report_failure proxy ''Unknown'' stamp st1)))"

text \<open>
  What happens to a checker over time: failure reports, requests, proxy selections, and
  changes that other threads and processes make to the manager's files.
\<close>

datatype event =
    Failure string string string
  | Request time nat request_outcome string
  | GetProxy time nat
  | Outside proxy_manager

fun step :: "(string \<Rightarrow> bool) \<Rightarrow> event \<Rightarrow> us_visa_checker \<Rightarrow> us_visa_checker" where
  "step bracketed_ok (Failure proxy_url error_type stamp) st =
     handle_proxy_failure proxy_url error_type stamp st"
| "step bracketed_ok (Request now rnd outcome stamp) st =
     snd (make_request bracketed_ok now rnd outcome stamp st)"
| "step bracketed_ok (GetProxy now rnd) st = snd (get_random_proxy bracketed_ok now rnd st)"
| "step bracketed_ok (Outside pm) st = st\<lparr>manager := pm\<rparr>"

fun run :: "(string \<Rightarrow> bool) \<Rightarrow> event list \<Rightarrow> us_visa_checker \<Rightarrow> us_visa_checker" where
  "run bracketed_ok [] st = st"
| "run bracketed_ok (e # es) st = run bracketed_ok es (step bracketed_ok e st)"

text \<open>\<open>_handle_proxy_failure\<close> called once for each reason (with its time text) in turn.\<close>

fun handle_failures :: "string \<Rightarrow> (string \<times> string) list \<Rightarrow> us_visa_checker \<Rightarrow> us_visa_checker" where
  "handle_failures proxy_url [] st = st"
| "handle_failures proxy_url ((error_type, stamp) # rest) st =
     handle_failures proxy_url rest (handle_proxy_failure proxy_url error_type stamp st)"

section \<open>The valid set as the specification words it\<close>

text \<open>
  The pool: the non-blank, non-comment stripped lines of the pool file. The blacklist:
  the identities of the non-blank, non-comment lines of the blacklist file, an identity
  being the line without its trailing \<open>#\<close> annotation.
\<close>

definition spec_load_pool :: "proxy_manager \<Rightarrow> string set" where
  "spec_load_pool pm =
     strip ` {l \<in> set (read_lines (proxy_pool_file pm)).
               strip l \<noteq> [] \<and> \<not> startswith (strip l) ''#''}"

definition spec_load_blacklist :: "proxy_manager \<Rightarrow> string set" where
  "spec_load_blacklist pm =
     (\<lambda>l. strip (before_hash (strip l))) `
       {l \<in> set (read_lines (blacklist_file pm)).
          strip l \<noteq> [] \<and> \<not> startswith (strip l) ''#''}"

section \<open>Notions the statements use\<close>

text \<open>A cached snapshot exists and is younger than five minutes at time \<open>now\<close>.\<close>

definition cache_fresh :: "time \<Rightarrow> proxy_manager \<Rightarrow> bool" where
  "cache_fresh now pm =
     (case valid_proxy_pool_file pm of
        None \<Rightarrow> False
      | Some Unreadable \<Rightarrow> False
      | Some (Json d) \<Rightarrow>
          now - (case last_updated d of None \<Rightarrow> default_cache_time | Some t \<Rightarrow> t) < 300)"

definition cached_list :: "proxy_manager \<Rightarrow> string list" where
  "cached_list pm =
     (case valid_proxy_pool_file pm of
        Some (Json d) \<Rightarrow> (case valid_proxies d of None \<Rightarrow> [] | Some v \<Rightarrow> v)
      | _ \<Rightarrow> [])"

text \<open>A proxy is off cooldown at \<open>current_time\<close>: the test of the selection loop.\<close>

definition eligible :: "(string \<Rightarrow> time option) \<Rightarrow> time \<Rightarrow> string \<Rightarrow> bool" where
  "eligible tested current_time p =
     (current_time - (case tested p of None \<Rightarrow> 0 | Some t \<Rightarrow> t) \<ge> test_cooldown)"

text \<open>The probe of a proxy answers with status 200.\<close>

definition probe_ok :: "(string \<Rightarrow> response) \<Rightarrow> string \<Rightarrow> bool" where
  "probe_ok prb proxy_url =
     (prb (if \<not> startswith proxy_url ''http://'' then ''http://'' @ proxy_url else proxy_url)
        = Status 200)"

text \<open>The batch one background pass probes: the first ten valid proxies off cooldown.\<close>

definition cycle_batch :: "cycle_env \<Rightarrow> proxy_manager \<Rightarrow> string list" where
  "cycle_batch env pm =
     take 10 (filter (eligible (last_tested_proxies pm) (select_time (testing env)))
                (calculate_valid_proxies pm))"

text \<open>The consecutive-failure count of a proxy: \<open>failed_proxy_attempts.get(proxy_url, 0)\<close>.\<close>

definition fail_count :: "us_visa_checker \<Rightarrow> string \<Rightarrow> int" where
  "fail_count st proxy_url =
     (case failed_proxy_attempts st proxy_url of None \<Rightarrow> 0 | Some n \<Rightarrow> n)"

text \<open>The URL that \<open>_normalize_proxy_url\<close> hands to \<open>urlparse\<close>.\<close>

definition with_scheme :: "string \<Rightarrow> string" where
  "with_scheme proxy_line =
     (let proxy = strip proxy_line in
      if startswith proxy ''http://'' \<or> startswith proxy ''https://'' then proxy
      else ''http://'' @ proxy)"

text \<open>
  The part of \<open>_normalize_proxy_url\<close> that follows \<open>urlparse\<close>: the checks on the parsed
  URL and the rebuilding of the canonical form.
\<close>

definition rebuild :: "split_result \<Rightarrow> string option" where
  "rebuild parsed =
     (case hostname parsed of
        None \<Rightarrow> None
      | Some host \<Rightarrow>
          (case port parsed of
             Inl e \<Rightarrow> None
           | Inr None \<Rightarrow> None
           | Inr (Some prt) \<Rightarrow>
               if prt = 0 then None
               else if \<not> (1 \<le> prt \<and> prt \<le> 65535) then None
               else if ip_pattern host \<and> \<not> octets_in_range host then None
               else
                 (case (username parsed, password parsed) of
                    (Some user, Some pass) \<Rightarrow>
                      if user \<noteq> [] \<and> pass \<noteq> [] then
                        Some (scheme parsed @ ''://'' @ user @ '':'' @ pass @ ''@''
                              @ host @ '':'' @ str_nat prt)
                      else Some (scheme parsed @ ''://'' @ host @ '':'' @ str_nat prt)
                  | _ \<Rightarrow> Some (scheme parsed @ ''://'' @ host @ '':'' @ str_nat prt))))"

text \<open>
  The characters a bracket-free network location cannot hold as \<open>urlsplit\<close> returns it:
  the delimiters that end it, the characters \<open>urlsplit\<close> removes, and the brackets.
\<close>

definition special :: "char \<Rightarrow> bool" where
  "special c = (netloc_delim c \<or> unsafe_url_byte c \<or> c = CHR ''['' \<or> c = CHR '']'')"

definition clean :: "string \<Rightarrow> bool" where
  "clean s = list_all (\<lambda>c. \<not> special c) s"

text \<open>
  A host name as \<open>hostname\<close> returns it for a bracket-free network location, and what
  the normalizer writes before it: nothing, or \<open>user:pass@\<close>.
\<close>

definition canonical_host :: "string \<Rightarrow> bool" where
  "canonical_host host =
     (host \<noteq> [] \<and> CHR '':'' \<notin> set host \<and> CHR ''@'' \<notin> set host \<and>
      CHR ''['' \<notin> set host \<and>
      (case partition_chr CHR ''%'' host of (a, pct, zone) \<Rightarrow> lower a = a))"

definition credentials :: "string \<Rightarrow> bool" where
  "credentials creds =
     (creds = [] \<or>
      (\<exists>u pw. creds = u @ '':'' @ pw @ ''@'' \<and> u \<noteq> [] \<and> pw \<noteq> [] \<and>
              CHR '':'' \<notin> set u \<and> CHR ''['' \<notin> set u \<and> CHR ''['' \<notin> set pw))"

section \<open>Concrete inputs\<close>

text \<open>The bracket check of a library that checks nothing (CPython before 3.11.4).\<close>

definition unchecked_brackets :: "string \<Rightarrow> bool" where
  "unchecked_brackets nl = True"

definition no_files :: proxy_manager where
  "no_files =
     \<lparr>proxy_pool_file = None, blacklist_file = None, valid_proxy_pool_file = None,
      last_tested_proxies = Map.empty, stop_background = False\<rparr>"

definition small_pool :: proxy_manager where
  "small_pool =
     no_files\<lparr>proxy_pool_file := Some (''a:1'' @ [CHR 0x0A] @ ''b:2'' @ [CHR 0x0A])\<rparr>"

definition cached_pool :: proxy_manager where
  "cached_pool = save_valid_proxy_cache 1714557600 [''b:2''] None small_pool"

text \<open>A pool file with a repeated proxy and an indented comment line.\<close>

definition repeating_pool :: proxy_manager where
  "repeating_pool =
     no_files\<lparr>proxy_pool_file :=
       Some (''a:1'' @ [CHR 0x0A] @ ''a:1'' @ [CHR 0x0A] @ ''  # spare'' @ [CHR 0x0A])\<rparr>"

definition one_proxy_pool :: proxy_manager where
  "one_proxy_pool =
     no_files\<lparr>proxy_pool_file := Some (''http://10.0.0.1:8080'' @ [CHR 0x0A])\<rparr>"

text \<open>
  A proxy is blacklisted, and a snapshot computed before that is saved after it (the
  background pass computes the valid list first and saves it after its probes).
\<close>

definition stale_cache :: proxy_manager where
  "stale_cache =
     save_valid_proxy_cache 1714557600 [''http://10.0.0.1:8080''] (Some [])
       (snd (add_to_blacklist ''http://10.0.0.1:8080'' ''Timeout'' ''2024-05-01 09:59:58''
              one_proxy_pool))"

definition two_blacklisted :: proxy_manager where
  "two_blacklisted =
     snd (add_to_blacklist ''1.1.1.1:80'' ''Timeout'' ''2024-05-01 10:00:07''
       (snd (add_to_blacklist ''1.1.1.1:8080'' ''Timeout'' ''2024-05-01 10:00:00'' no_files)))"

text \<open>
  A checker as \<open>__init__\<close> leaves it at 10:00:00, on a given manager and with a given
  failure threshold.
\<close>

definition checker_on :: "proxy_manager \<Rightarrow> int \<Rightarrow> us_visa_checker" where
  "checker_on pm n =
     \<lparr>manager = pm, proxies = fst (load_valid_proxies 1714557600 pm), blacklisted_proxies = {},
      failed_proxy_attempts = Map.empty, max_proxy_failures = n\<rparr>"

text \<open>A checker with two failures of a proxy pending, below a threshold of three.\<close>

definition suspect_checker :: us_visa_checker where
  "suspect_checker =
     handle_failures ''http://10.0.0.1:8080''
       [(''Timeout'', ''2024-05-01 10:00:00''), (''SSLError'', ''2024-05-01 10:00:09'')]
       (checker_on one_proxy_pool 3)"

definition at_noon :: test_env where
  "at_noon =
     \<lparr>select_time = 1714557600, sample_rnds = [], probe_time = 1714557601,
      probe = (\<lambda>proxy. RequestFailed)\<rparr>"

definition cycle_at_noon :: cycle_env where
  "cycle_at_noon = \<lparr>testing = at_noon, save_time = 1714557605\<rparr>"

section \<open>Facts about the loops\<close>

lemmas text_defs =
  strip_def is_space_def startswith_def before_hash_def is_entry_def read_lines_def

lemmas url_defs =
  normalize_proxy_url_def urlparse_def urlsplit_def strip_def is_space_def startswith_def
  c0_control_or_space_def unsafe_url_byte_def scheme_char_def ascii_alpha_def ascii_digit_def
  netloc_delim_def lower_def lower_chr_def hostname_def hostinfo_def port_def userinfo_def
  username_def password_def partition_chr_def rpartition_chr_def int_of_digits_def
  ip_pattern_def octets_in_range_def Let_def

lemma pool_loop_eq:
  "pool_loop ls acc = acc \<union> strip ` {l \<in> set ls. is_entry (strip l)}"
  by (induction ls arbitrary: acc) (auto simp: Let_def)

lemma strip_hd_not_space: "strip s \<noteq> [] \<Longrightarrow> \<not> is_space (hd (strip s))"
proof -
  assume a: "strip s \<noteq> []"
  let ?t = "dropWhile is_space s"
  have t: "?t \<noteq> []" using a by (auto simp: strip_def dest: set_dropWhileD)
  have h: "\<not> is_space (hd ?t)" using t by (simp add: hd_dropWhile)
  obtain c cs where tc: "?t = c # cs" using t by (cases ?t) auto
  have c: "\<not> is_space c" using h tc by simp
  have "rev ?t = rev cs @ [c]" using tc by simp
  then have "dropWhile is_space (rev ?t) = dropWhile is_space (rev cs) @ [c]"
    using c by (simp add: dropWhile_append)
  then have "strip s = c # rev (dropWhile is_space (rev cs))" by (simp add: strip_def)
  then show ?thesis using c by simp
qed

lemma entry_identity_nonempty:
  assumes "is_entry (strip raw)"
  shows "strip (before_hash (strip raw)) \<noteq> []"
proof -
  obtain c cs where s: "strip raw = c # cs"
    using assms by (cases "strip raw") (auto simp: is_entry_def)
  have c1: "\<not> is_space c" using strip_hd_not_space[of raw] s by simp
  have c2: "c \<noteq> CHR ''#''" using assms s by (auto simp: is_entry_def startswith_def)
  have "before_hash (strip raw) = c # takeWhile (\<lambda>c. c \<noteq> CHR ''#'') cs"
    using s c2 by (simp add: before_hash_def)
  then show ?thesis using c1 by (simp add: strip_def)
qed

lemma blacklist_loop_eq:
  "blacklist_loop ls acc =
     acc \<union> (\<lambda>l. strip (before_hash (strip l))) ` {l \<in> set ls. is_entry (strip l)}"
  by (induction ls arbitrary: acc) (auto simp: Let_def entry_identity_nonempty)

lemma existing_loop_eq:
  "existing_loop ls acc =
     acc \<union> (\<lambda>l. strip (before_hash (strip l))) ` {l \<in> set ls. is_entry (strip l)}"
  by (induction ls arbitrary: acc) (auto simp: Let_def)

lemma spec_load_blacklist_loop:
  "spec_load_blacklist pm = blacklist_loop (read_lines (blacklist_file pm)) {}"
  by (simp add: blacklist_loop_eq spec_load_blacklist_def is_entry_def)

lemma spec_load_pool_loop:
  "spec_load_pool pm = pool_loop (read_lines (proxy_pool_file pm)) {}"
  by (simp add: pool_loop_eq spec_load_pool_def is_entry_def)

lemma existing_is_spec_blacklist:
  "existing_loop (read_lines (blacklist_file pm)) {} = spec_load_blacklist pm"
  by (simp add: existing_loop_eq spec_load_blacklist_def is_entry_def)

lemma set_calculate_valid_proxies:
  "set (calculate_valid_proxies pm) = spec_load_pool pm - spec_load_blacklist pm"
  by (auto simp: calculate_valid_proxies_def Let_def pool_loop_eq blacklist_loop_eq
        pool_entries_def spec_load_pool_def spec_load_blacklist_def is_entry_def)

lemma distinct_calculate_valid_proxies: "distinct (calculate_valid_proxies pm)"
  by (simp add: calculate_valid_proxies_def Let_def)

lemma load_valid_proxies_cases:
  "load_valid_proxies now pm =
     (if cache_fresh now pm then (cached_list pm, pm) else (calculate_valid_proxies pm, pm))"
  by (simp add: load_valid_proxies_def cache_fresh_def cached_list_def Let_def
        split: option.splits cache_file.splits)

lemma add_to_blacklist_cases:
  "snd (add_to_blacklist e r s pm) =
     (if e \<in> spec_load_blacklist pm then pm
      else pm\<lparr>blacklist_file := append_file (blacklist_file pm) (blacklist_line e r s),
              valid_proxy_pool_file := None\<rparr>)"
  by (simp add: add_to_blacklist_def existing_is_spec_blacklist invalidate_cache_def Let_def)

text \<open>The selection loop below its bound takes the eligible proxies in order.\<close>

lemma cooldown_loop_take:
  "int (length acc) < max_test \<Longrightarrow>
   cooldown_loop tested t max_test ps acc =
     acc @ take (nat max_test - length acc) (filter (eligible tested t) ps)"
proof (induction ps arbitrary: acc)
  case Nil
  then show ?case by simp
next
  case (Cons p ps)
  show ?case
  proof (cases "eligible tested t p")
    case False
    then show ?thesis using Cons by (simp add: eligible_def)
  next
    case True
    show ?thesis
    proof (cases "int (length (acc @ [p])) \<ge> max_test")
      case full: True
      then have "nat max_test - length acc = 1" using Cons.prems by auto
      then show ?thesis using True full by (simp add: eligible_def)
    next
      case notfull: False
      then have lt: "int (length (acc @ [p])) < max_test" by simp
      have "nat max_test - length acc = Suc (nat max_test - length (acc @ [p]))"
        using lt by auto
      then show ?thesis using True notfull Cons.IH[OF lt] by (simp add: eligible_def)
    qed
  qed
qed

lemma cooldown_loop_member:
  "x \<in> set (cooldown_loop tested t max_test ps acc) \<Longrightarrow>
   x \<in> set acc \<or> (x \<in> set ps \<and> eligible tested t x)"
proof (induction ps arbitrary: acc)
  case Nil
  then show ?case by simp
next
  case (Cons p ps)
  show ?case
  proof (cases "eligible tested t p")
    case False
    then have "x \<in> set (cooldown_loop tested t max_test ps acc)"
      using Cons.prems by (simp add: eligible_def)
    from Cons.IH[OF this] show ?thesis by auto
  next
    case True
    show ?thesis
    proof (cases "int (length (acc @ [p])) \<ge> max_test")
      case full: True
      then have "x \<in> set (acc @ [p])" using Cons.prems True by (simp add: eligible_def)
      then show ?thesis using True by auto
    next
      case notfull: False
      then have "x \<in> set (cooldown_loop tested t max_test ps (acc @ [p]))"
        using Cons.prems True by (simp add: eligible_def)
      from Cons.IH[OF this] show ?thesis using True by auto
    qed
  qed
qed

lemma cooldown_loop_first:
  "max_test \<le> 0 \<Longrightarrow>
   cooldown_loop tested t max_test ps [] = take 1 (filter (eligible tested t) ps)"
  by (induction ps) (auto simp: eligible_def Let_def)

lemma probe_loop_eq:
  "probe_loop prb t xs (w, m) =
     (w @ filter (probe_ok prb) xs, \<lambda>p. if p \<in> set xs then Some t else m p)"
proof (induction xs arbitrary: w m)
  case Nil
  then show ?case by simp
next
  case (Cons x xs)
  have upd: "(\<lambda>p. if p \<in> set xs then Some t else (m(x \<mapsto> t)) p) =
             (\<lambda>p. if p \<in> set (x # xs) then Some t else m p)"
    by (rule ext) simp
  show ?case
    by (cases "prb (if \<not> startswith x ''http://'' then ''http://'' @ x else x)")
       (simp_all add: Cons.IH Let_def probe_ok_def upd)
qed

lemma probe_loop_records:
  "snd (probe_loop prb t xs (w, m)) = (\<lambda>p. if p \<in> set xs then Some t else m p)"
  by (simp add: probe_loop_eq)

text \<open>The stop flag is set from outside only, so the loop makes every pass it is given.\<close>

lemma background_cycle_keeps_flag:
  "stop_background (background_cycle env pm) = stop_background pm"
  by (auto simp: background_cycle_def Let_def test_and_filter_proxies_def
        save_valid_proxy_cache_def split: sum.splits prod.splits)

lemma updater_makes_every_pass:
  "\<not> stop_background pm \<Longrightarrow>
   background_proxy_updater envs pm = foldl (\<lambda>pm env. background_cycle env pm) pm envs"
  by (induction envs arbitrary: pm) (simp_all add: background_cycle_keeps_flag)

lemma draw_length: "k \<le> length xs \<Longrightarrow> length (draw rnds xs k) = k"
proof (induction k arbitrary: rnds xs)
  case 0
  then show ?case by simp
next
  case (Suc k)
  then have ne: "xs \<noteq> []" by auto
  define j where "j = (case rnds of [] \<Rightarrow> 0 | r # rs \<Rightarrow> r mod length xs)"
  have j: "j < length xs" using ne by (auto simp: j_def split: list.splits)
  have "length (take j xs @ drop (Suc j) xs) = length xs - 1" using j by simp
  then have "k \<le> length (take j xs @ drop (Suc j) xs)" using Suc.prems by simp
  from Suc.IH[OF this] show ?case using ne by (simp add: Let_def j_def)
qed

text \<open>
  The batch under \<open>respect_cooldown\<close>: for a bound of at least one, the first \<open>max_test\<close>
  proxies off cooldown, in the order of the candidates; a proxy tested less than 300
  seconds ago is never in it, whatever the bound.
\<close>

lemma select_in_order:
  "1 \<le> max_test \<Longrightarrow>
   select_test_proxies env ps max_test True pm =
     Inr (take (nat max_test)
            (filter (eligible (last_tested_proxies pm) (select_time env)) ps))"
  using cooldown_loop_take[of "[]" max_test "last_tested_proxies pm" "select_time env" ps]
  by (simp add: select_test_proxies_def)

lemma select_respects_cooldown:
  assumes "select_test_proxies env ps max_test True pm = Inr batch"
      and "last_tested_proxies pm p = Some t0"
      and "select_time env - t0 < 300"
  shows "p \<notin> set batch"
proof
  assume "p \<in> set batch"
  then have "p \<in> set (cooldown_loop (last_tested_proxies pm) (select_time env) max_test ps [])"
    using assms(1) by (simp add: select_test_proxies_def)
  from cooldown_loop_member[OF this]
  have "eligible (last_tested_proxies pm) (select_time env) p" by simp
  then show False using assms(2,3) by (simp add: eligible_def test_cooldown_def)
qed

text \<open>The batch without cooldown: a sample of \<open>min(len(proxies), max_test)\<close> candidates.\<close>

lemma select_sample_size:
  "0 \<le> max_test \<Longrightarrow>
   \<exists>batch. select_test_proxies env ps max_test False pm = Inr batch \<and>
           length batch = min (length ps) (nat max_test)"
  by (auto simp: select_test_proxies_def random_sample_def draw_length min_def)

lemma select_sample_negative:
  "max_test < 0 \<Longrightarrow> select_test_proxies env ps max_test False pm = Inl ValueError"
  by (simp add: select_test_proxies_def random_sample_def)

lemma select_cooldown_10:
  "select_test_proxies env valid 10 True pm =
     Inr (take 10 (filter (eligible (last_tested_proxies pm) (select_time env)) valid))"
  using select_in_order[of 10 env valid pm] by simp

text \<open>What \<open>remove_from_blacklist\<close> keeps: the lines that are no entry holding the text.\<close>

lemma remove_loop_filter:
  "remove_loop e ls (acc, r) =
     (acc @ filter (\<lambda>l. \<not> (is_entry (strip l) \<and> contains e (strip l))) ls,
      r \<or> (\<exists>l \<in> set ls. is_entry (strip l) \<and> contains e (strip l)))"
  by (induction ls arbitrary: acc r) (auto simp: Let_def)

section \<open>Facts about the checker\<close>

lemma handle_below_threshold:
  "fail_count st e + 1 < max_proxy_failures st \<Longrightarrow>
   handle_proxy_failure e r s st =
     st\<lparr>failed_proxy_attempts := (failed_proxy_attempts st)(e \<mapsto> fail_count st e + 1)\<rparr>"
  by (simp add: handle_proxy_failure_def fail_count_def Let_def)

lemma handle_at_threshold:
  "fail_count st e + 1 \<ge> max_proxy_failures st \<Longrightarrow>
   handle_proxy_failure e r s st =
     st\<lparr>manager := snd (add_to_blacklist e r s (manager st)),
        blacklisted_proxies := insert e (blacklisted_proxies st),
        proxies := remove1 e (proxies st),
        failed_proxy_attempts := (failed_proxy_attempts st)(e := None)\<rparr>"
  by (simp add: handle_proxy_failure_def fail_count_def Let_def remove1_idem)

lemma handle_failures_append:
  "handle_failures e (rs @ [(r, s)]) st = handle_proxy_failure e r s (handle_failures e rs st)"
  by (induction rs arbitrary: st) auto

lemma handle_failures_below:
  "fail_count st e + int (length rs) < max_proxy_failures st \<Longrightarrow>
   handle_failures e rs st =
     (if rs = [] then st
      else st\<lparr>failed_proxy_attempts :=
               (failed_proxy_attempts st)(e \<mapsto> fail_count st e + int (length rs))\<rparr>)"
proof (induction rs arbitrary: st)
  case Nil
  then show ?case by simp
next
  case (Cons x rs)
  obtain r s where x: "x = (r, s)" by (cases x)
  let ?st1 = "st\<lparr>failed_proxy_attempts :=
                   (failed_proxy_attempts st)(e \<mapsto> fail_count st e + 1)\<rparr>"
  have b: "fail_count st e + 1 < max_proxy_failures st" using Cons.prems by simp
  have h: "handle_proxy_failure e r s st = ?st1" using handle_below_threshold[OF b] .
  have c1: "fail_count ?st1 e = fail_count st e + 1" by (simp add: fail_count_def)
  have p: "fail_count ?st1 e + int (length rs) < max_proxy_failures ?st1"
    using Cons.prems c1 by simp
  show ?case using Cons.IH[OF p] h x c1 by (simp add: add.assoc)
qed

lemma get_random_proxy_not_blacklisted:
  assumes "get_random_proxy ok now rnd st = (Some p, st')"
  shows "p \<notin> blacklisted_proxies st"
proof -
  obtain loaded pm where l: "load_valid_proxies now (manager st) = (loaded, pm)" by fastforce
  let ?av = "filter (\<lambda>p. p \<notin> blacklisted_proxies st) loaded"
  from assms l have ne: "?av \<noteq> []" and p: "p = ?av ! (rnd mod length ?av)"
    by (auto simp: get_random_proxy_def Let_def split: if_splits)
  have "rnd mod length ?av < length ?av" using ne by simp
  then have "?av ! (rnd mod length ?av) \<in> set ?av" by (rule nth_mem)
  then show ?thesis using p by simp
qed

lemma get_random_proxy_some:
  assumes "get_random_proxy ok now rnd st = (Some e, st1)"
  shows "st1 = st\<lparr>proxies := fst (load_valid_proxies now (manager st))\<rparr>"
  using assms
  by (auto simp: get_random_proxy_def load_valid_proxies_cases Let_def split: if_splits)

lemma get_random_proxy_keeps:
  "blacklisted_proxies st \<subseteq> blacklisted_proxies (snd (get_random_proxy ok now rnd st))"
  by (auto simp: get_random_proxy_def Let_def split: prod.splits if_splits)

lemma handle_keeps:
  "blacklisted_proxies st \<subseteq> blacklisted_proxies (handle_proxy_failure e r s st)"
  by (auto simp: handle_proxy_failure_def Let_def)

lemma report_keeps:
  "blacklisted_proxies st \<subseteq> blacklisted_proxies (report_failure p r s st)"
  using handle_keeps by (auto simp: report_failure_def split: option.splits)

lemma make_request_keeps:
  "blacklisted_proxies st \<subseteq> blacklisted_proxies (snd (make_request ok now rnd out s st))"
proof -
  obtain p st1 where g: "get_random_proxy ok now rnd st = (p, st1)" by fastforce
  have 1: "blacklisted_proxies st \<subseteq> blacklisted_proxies st1"
    using get_random_proxy_keeps[of st ok now rnd] g by simp
  have 2: "blacklisted_proxies st1 \<subseteq> blacklisted_proxies (report_failure p r s st1)" for r
    by (rule report_keeps)
  show ?thesis
    using 1 2 g by (cases out) (auto simp: make_request_def split: option.splits)
qed

lemma step_keeps: "blacklisted_proxies st \<subseteq> blacklisted_proxies (step ok ev st)"
  using handle_keeps make_request_keeps get_random_proxy_keeps by (cases ev) auto

lemma run_keeps: "blacklisted_proxies st \<subseteq> blacklisted_proxies (run ok evs st)"
proof (induction evs arbitrary: st)
  case Nil
  then show ?case by simp
next
  case (Cons ev evs)
  show ?case using step_keeps[of st ok ev] Cons.IH[of "step ok ev st"] by auto
qed

lemma never_returned:
  assumes "e \<in> blacklisted_proxies st"
  shows "fst (get_random_proxy ok now rnd (run ok evs st)) \<noteq> Some e"
proof
  assume r: "fst (get_random_proxy ok now rnd (run ok evs st)) = Some e"
  obtain st' where "get_random_proxy ok now rnd (run ok evs st) = (Some e, st')"
    using r by (cases "get_random_proxy ok now rnd (run ok evs st)") auto
  then have "e \<notin> blacklisted_proxies (run ok evs st)"
    by (rule get_random_proxy_not_blacklisted)
  then show False using assms run_keeps[of st ok evs] by auto
qed

section \<open>Facts about the URL parser and the normalizer\<close>

lemma partition_chr_found:
  "partition_chr c s = (a, True, b) \<longleftrightarrow> s = a @ c # b \<and> c \<notin> set a"
proof
  assume p: "partition_chr c s = (a, True, b)"
  let ?h = "takeWhile (\<lambda>x. x \<noteq> c) s"
  from p have lt: "length ?h < length s" and a: "a = ?h" and b: "b = drop (Suc (length ?h)) s"
    by (auto simp: partition_chr_def Let_def split: if_splits)
  have s: "s = ?h @ dropWhile (\<lambda>x. x \<noteq> c) s" by simp
  have ne: "dropWhile (\<lambda>x. x \<noteq> c) s \<noteq> []" using lt s by (metis append_Nil2 less_irrefl)
  then have hd: "hd (dropWhile (\<lambda>x. x \<noteq> c) s) = c" using hd_dropWhile[of "\<lambda>x. x \<noteq> c" s] by simp
  obtain t where t: "dropWhile (\<lambda>x. x \<noteq> c) s = c # t" using ne hd by (cases "dropWhile (\<lambda>x. x \<noteq> c) s") auto
  have s': "s = ?h @ c # t" using s t by simp
  have "drop (Suc (length ?h)) s = t" by (subst s') simp
  moreover have "c \<notin> set ?h" by (auto dest: set_takeWhileD)
  ultimately show "s = a @ c # b \<and> c \<notin> set a" using a b s' by simp
next
  assume "s = a @ c # b \<and> c \<notin> set a"
  then have s: "s = a @ c # b" and n: "c \<notin> set a" by auto
  have "\<And>x. x \<in> set a \<Longrightarrow> x \<noteq> c" using n by auto
  then have "takeWhile (\<lambda>x. x \<noteq> c) s = a" by (simp add: s takeWhile_append2)
  then show "partition_chr c s = (a, True, b)" by (simp add: partition_chr_def Let_def s)
qed

lemma partition_chr_absent:
  "c \<notin> set s \<Longrightarrow> partition_chr c s = (s, False, [])"
proof -
  assume "c \<notin> set s"
  then have h: "takeWhile (\<lambda>x. x \<noteq> c) s = s" by (auto simp: takeWhile_eq_all_conv)
  show ?thesis unfolding partition_chr_def Let_def h by simp
qed

lemma partition_chr_not_found:
  "partition_chr c s = (a, False, b) \<Longrightarrow> c \<notin> set s \<and> a = s \<and> b = []"
proof -
  assume p: "partition_chr c s = (a, False, b)"
  let ?h = "takeWhile (\<lambda>x. x \<noteq> c) s"
  from p have "\<not> length ?h < length s" and "a = s" and "b = []"
    by (auto simp: partition_chr_def Let_def split: if_splits)
  moreover have "length ?h \<le> length s" by (rule length_takeWhile_le)
  ultimately have "length ?h = length s" by simp
  then have "?h = s" by (metis takeWhile_eq_take take_all order_refl)
  then have "c \<notin> set s" by (metis (mono_tags, lifting) set_takeWhileD)
  then show ?thesis using \<open>a = s\<close> \<open>b = []\<close> by simp
qed

lemma rpartition_chr_found:
  "rpartition_chr c s = (a, True, b) \<longleftrightarrow> s = a @ c # b \<and> c \<notin> set b"
proof -
  obtain t f h where p: "partition_chr c (rev s) = (t, f, h)" by (cases "partition_chr c (rev s)") auto
  show ?thesis
  proof (cases f)
    case True
    then have r: "rev s = t @ c # h \<and> c \<notin> set t" using p partition_chr_found by simp
    then have s: "s = rev h @ c # rev t" by (metis rev_append rev.simps(2) rev_rev_ident append.assoc append_Cons append_Nil)
    have rp: "rpartition_chr c s = (rev h, True, rev t)" using p True by (simp add: rpartition_chr_def)
    show ?thesis
    proof
      assume "rpartition_chr c s = (a, True, b)"
      then show "s = a @ c # b \<and> c \<notin> set b" using rp s r by auto
    next
      assume "s = a @ c # b \<and> c \<notin> set b"
      then have "rev s = rev b @ c # rev a \<and> c \<notin> set (rev b)" by simp
      then have "partition_chr c (rev s) = (rev b, True, rev a)" using partition_chr_found by blast
      then show "rpartition_chr c s = (a, True, b)" by (simp add: rpartition_chr_def)
    qed
  next
    case False
    then have n: "c \<notin> set (rev s)" using p partition_chr_not_found[of c "rev s" t h] by simp
    have rp: "rpartition_chr c s = ([], False, s)" using p False by (simp add: rpartition_chr_def)
    show ?thesis using rp n by auto
  qed
qed

lemma rpartition_chr_absent:
  "c \<notin> set s \<Longrightarrow> rpartition_chr c s = ([], False, s)"
  by (simp add: rpartition_chr_def partition_chr_absent)

lemma rpartition_chr_not_found:
  "rpartition_chr c s = (a, False, b) \<Longrightarrow> c \<notin> set s \<and> a = [] \<and> b = s"
proof -
  assume r: "rpartition_chr c s = (a, False, b)"
  obtain t f h where p: "partition_chr c (rev s) = (t, f, h)" by (cases "partition_chr c (rev s)") auto
  have "\<not> f" using r p by (auto simp: rpartition_chr_def split: if_splits)
  then have "c \<notin> set (rev s)" using p partition_chr_not_found[of c "rev s" t h] by simp
  then show ?thesis using r by (simp add: rpartition_chr_absent)
qed

lemma lower_chr_cases:
  "lower_chr c = c \<or> (97 \<le> (of_char (lower_chr c) :: nat))"
proof (cases "lower_chr c = c")
  case True
  then show ?thesis by simp
next
  case False
  let ?n = "of_char c :: nat"
  have r: "(65 \<le> ?n \<and> ?n \<le> 90) \<or> (192 \<le> ?n \<and> ?n \<le> 222 \<and> ?n \<noteq> 215)"
    using False by (auto simp: lower_chr_def Let_def split: if_splits)
  then have l: "lower_chr c = char_of (?n + 32)" by (simp add: lower_chr_def Let_def)
  have "?n + 32 < 256" using r by auto
  then have "(of_char (char_of (?n + 32) :: char) :: nat) = ?n + 32" by simp
  then show ?thesis using l r by auto
qed

lemma lower_chr_fixed:
  assumes "(of_char d :: nat) < 65 \<or> (90 < (of_char d :: nat) \<and> (of_char d :: nat) < 97)"
  shows "lower_chr c = d \<longleftrightarrow> c = d"
proof
  assume e: "lower_chr c = d"
  show "c = d"
  proof (rule ccontr)
    assume "c \<noteq> d"
    then have "lower_chr c \<noteq> c" using e by simp
    then have "97 \<le> (of_char (lower_chr c) :: nat)" using lower_chr_cases[of c] by simp
    then show False using e assms by simp
  qed
next
  assume "c = d"
  then show "lower_chr c = d" using assms by (auto simp: lower_chr_def Let_def)
qed

lemma lower_chr_idem: "lower_chr (lower_chr c) = lower_chr c"
proof (cases "lower_chr c = c")
  case True
  then show ?thesis by simp
next
  case False
  let ?n = "of_char c :: nat"
  have r: "(65 \<le> ?n \<and> ?n \<le> 90) \<or> (192 \<le> ?n \<and> ?n \<le> 222 \<and> ?n \<noteq> 215)"
    using False by (auto simp: lower_chr_def Let_def split: if_splits)
  then have l: "lower_chr c = char_of (?n + 32)" by (simp add: lower_chr_def Let_def)
  have "?n + 32 < 256" using r by auto
  then have o: "(of_char (char_of (?n + 32) :: char) :: nat) = ?n + 32" by simp
  show ?thesis unfolding l using r o by (auto simp: lower_chr_def Let_def)
qed

lemma lower_idem: "lower (lower s) = lower s"
  by (simp add: lower_def lower_chr_idem)

lemma lower_notin:
  assumes "(of_char d :: nat) < 65 \<or> (90 < (of_char d :: nat) \<and> (of_char d :: nat) < 97)"
  shows "d \<in> set (lower s) \<longleftrightarrow> d \<in> set s"
proof
  assume "d \<in> set (lower s)"
  then obtain x where x: "x \<in> set s" "lower_chr x = d" by (auto simp: lower_def)
  then have "x = d" using lower_chr_fixed[OF assms, of x] by simp
  then show "d \<in> set s" using x by simp
next
  assume "d \<in> set s"
  moreover have "lower_chr d = d" using lower_chr_fixed[OF assms, of d] by simp
  ultimately show "d \<in> set (lower s)" by (force simp: lower_def)
qed

lemma digit_nth: "k < 10 \<Longrightarrow> ascii_digit (''0123456789'' ! k) \<and> (of_char (''0123456789'' ! k) :: nat) = 48 + k"
proof -
  assume "k < 10"
  then have "k \<in> {0, 1, 2, 3, 4, 5, 6, 7, 8, 9}" by auto
  then show ?thesis by (auto simp: ascii_digit_def)
qed

lemma str_nat_digits: "list_all ascii_digit (str_nat n)"
proof (induction n rule: str_nat.induct)
  case (1 n)
  show ?case
  proof (cases "n < 10")
    case True
    then show ?thesis using digit_nth[of n] by (subst str_nat.simps) simp
  next
    case False
    have "n mod 10 < 10" by simp
    then show ?thesis using False 1 digit_nth[of "n mod 10"] by (subst str_nat.simps) simp
  qed
qed

lemma str_nat_nonempty: "str_nat n \<noteq> []"
  by (subst str_nat.simps) simp

lemma int_of_digits_snoc:
  "int_of_digits (s @ [c]) = 10 * int_of_digits s + ((of_char c :: nat) - 48)"
  by (simp add: int_of_digits_def)

lemma int_of_digits_str_nat: "int_of_digits (str_nat n) = n"
proof (induction n rule: str_nat.induct)
  case (1 n)
  show ?case
  proof (cases "n < 10")
    case True
    then show ?thesis using digit_nth[of n] by (subst str_nat.simps) (simp add: int_of_digits_def)
  next
    case False
    have m: "n mod 10 < 10" by simp
    have "int_of_digits (str_nat n) = 10 * int_of_digits (str_nat (n div 10)) + (n mod 10)"
      using False digit_nth[OF m] by (subst str_nat.simps) (simp add: int_of_digits_snoc)
    then show ?thesis using 1 False by simp
  qed
qed

lemma str_nat_length: "0 < k \<Longrightarrow> n < 10 ^ k \<Longrightarrow> length (str_nat n) \<le> k"
proof (induction k arbitrary: n)
  case 0
  then show ?case by simp
next
  case (Suc k)
  show ?case
  proof (cases "n < 10")
    case True
    then show ?thesis by (subst str_nat.simps) simp
  next
    case False
    then have k: "0 < k" using Suc.prems by (cases k) auto
    have "n div 10 < 10 ^ k" using Suc.prems by (simp add: less_mult_imp_div_less mult.commute)
    from Suc.IH[OF k this] show ?thesis using False by (subst str_nat.simps) simp
  qed
qed

lemma str_nat_port_length: "n \<le> 65535 \<Longrightarrow> length (str_nat n) \<le> 4300"
  using str_nat_length[of 5 n] by simp

lemma strip_id:
  assumes "s \<noteq> []" "\<not> is_space (hd s)" "\<not> is_space (last s)"
  shows "strip s = s"
proof -
  have 1: "dropWhile is_space s = s" using assms(1,2) by (cases s) auto
  have "hd (rev s) = last s" using assms(1) by (simp add: hd_rev)
  then have "\<not> is_space (hd (rev s))" using assms(3) by simp
  moreover have "rev s \<noteq> []" using assms(1) by simp
  ultimately have 2: "dropWhile is_space (rev s) = rev s" by (cases "rev s") simp_all
  show ?thesis by (simp add: strip_def 1 2)
qed

lemma digit_not_space: "ascii_digit c \<Longrightarrow> \<not> is_space c"
  by (auto simp: ascii_digit_def is_space_def)

lemma normalize_via_rebuild:
  "normalize_proxy_url ok x =
     (if strip x = [] then None
      else case urlparse ok (with_scheme x) of Inl e \<Rightarrow> None | Inr parsed \<Rightarrow> rebuild parsed)"
  by (simp add: normalize_proxy_url_def with_scheme_def rebuild_def Let_def split: sum.splits)

lemma special_code:
  "special c \<Longrightarrow> (of_char c :: nat) < 65 \<or> (90 < (of_char c :: nat) \<and> (of_char c :: nat) < 97)"
  by (auto simp: special_def netloc_delim_def unsafe_url_byte_def)

lemma clean_lower: "clean s \<Longrightarrow> clean (lower s)"
proof -
  assume c: "clean s"
  have "\<not> special d" if "d \<in> set (lower s)" for d
  proof
    assume sp: "special d"
    then have "d \<in> set s" using that lower_notin[OF special_code[OF sp], of s] by simp
    then show False using c sp by (simp add: clean_def list_all_iff)
  qed
  then show ?thesis by (simp add: clean_def list_all_iff)
qed

lemma clean_append [simp]: "clean (a @ b) \<longleftrightarrow> clean a \<and> clean b"
  by (simp add: clean_def)

lemma clean_subset: "clean s \<Longrightarrow> set t \<subseteq> set s \<Longrightarrow> clean t"
  by (auto simp: clean_def list_all_iff)

lemma clean_digits: "list_all ascii_digit s \<Longrightarrow> clean s"
  by (auto simp: clean_def list_all_iff special_def netloc_delim_def unsafe_url_byte_def ascii_digit_def)

lemma clean_Nil [simp]: "clean []"
  by (simp add: clean_def)

lemma clean_Cons [simp]: "clean (c # s) \<longleftrightarrow> \<not> special c \<and> clean s"
  by (simp add: clean_def)

lemma plain_marks [simp]:
  "\<not> special CHR '':''" "\<not> special CHR ''@''" "\<not> special CHR ''%''"
  by (simp_all add: special_def netloc_delim_def unsafe_url_byte_def)

lemma urlsplit_prefixed:
  assumes "sch = ''http'' \<or> sch = ''https''"
  shows "urlsplit ok (sch @ ''://'' @ rest) =
     (let nl = takeWhile (\<lambda>c. \<not> netloc_delim c) (filter (\<lambda>c. \<not> unsafe_url_byte c) rest);
          opening = (CHR ''['' \<in> set nl);
          closing = (CHR '']'' \<in> set nl)
      in if opening \<noteq> closing then Inl ValueError
         else if opening \<and> closing \<and> \<not> ok nl then Inl ValueError
         else Inr \<lparr>scheme = sch, netloc = nl\<rparr>)"
proof -
  have 1: "urlsplit ok (''http'' @ ''://'' @ rest) =
     (let nl = takeWhile (\<lambda>c. \<not> netloc_delim c) (filter (\<lambda>c. \<not> unsafe_url_byte c) rest);
          opening = (CHR ''['' \<in> set nl);
          closing = (CHR '']'' \<in> set nl)
      in if opening \<noteq> closing then Inl ValueError
         else if opening \<and> closing \<and> \<not> ok nl then Inl ValueError
         else Inr \<lparr>scheme = ''http'', netloc = nl\<rparr>)"
    by (simp add: urlsplit_def Let_def c0_control_or_space_def unsafe_url_byte_def scheme_char_def
        ascii_alpha_def ascii_digit_def lower_def lower_chr_def)
  have 2: "urlsplit ok (''https'' @ ''://'' @ rest) =
     (let nl = takeWhile (\<lambda>c. \<not> netloc_delim c) (filter (\<lambda>c. \<not> unsafe_url_byte c) rest);
          opening = (CHR ''['' \<in> set nl);
          closing = (CHR '']'' \<in> set nl)
      in if opening \<noteq> closing then Inl ValueError
         else if opening \<and> closing \<and> \<not> ok nl then Inl ValueError
         else Inr \<lparr>scheme = ''https'', netloc = nl\<rparr>)"
    by (simp add: urlsplit_def Let_def c0_control_or_space_def unsafe_url_byte_def scheme_char_def
        ascii_alpha_def ascii_digit_def lower_def lower_chr_def)
  show ?thesis using assms 1 2 by blast
qed

lemma rpartition_parts:
  assumes "rpartition_chr c s = (a, f, b)"
  shows "c \<notin> set b \<and> set b \<subseteq> set s \<and> set a \<subseteq> set s \<and>
         (f \<longrightarrow> s = a @ c # b) \<and> (\<not> f \<longrightarrow> a = [] \<and> b = s)"
proof (cases f)
  case True
  then have "s = a @ c # b \<and> c \<notin> set b" using assms rpartition_chr_found by simp
  then show ?thesis using True by auto
next
  case False
  then have "c \<notin> set s \<and> a = [] \<and> b = s" using assms rpartition_chr_not_found[of c s a b] by simp
  then show ?thesis using False by auto
qed

lemma partition_parts:
  assumes "partition_chr c s = (a, f, b)"
  shows "c \<notin> set a \<and> set a \<subseteq> set s \<and> set b \<subseteq> set s \<and>
         (f \<longrightarrow> s = a @ c # b) \<and> (\<not> f \<longrightarrow> a = s \<and> b = [])"
proof (cases f)
  case True
  then have "s = a @ c # b \<and> c \<notin> set a" using assms partition_chr_found by simp
  then show ?thesis using True by auto
next
  case False
  then have "c \<notin> set s \<and> a = s \<and> b = []" using assms partition_chr_not_found[of c s a b] by simp
  then show ?thesis using False by auto
qed

lemma hostinfo_plain:
  assumes "CHR ''['' \<notin> set nl"
      and "rpartition_chr CHR ''@'' nl = (info, hi, hp)"
      and "partition_chr CHR '':'' hp = (h0, hc, p)"
  shows "hostinfo \<lparr>scheme = sch, netloc = nl\<rparr> = (h0, if p = [] then None else Some p)"
proof -
  have "set hp \<subseteq> set nl" using rpartition_parts[OF assms(2)] by simp
  then have "CHR ''['' \<notin> set hp" using assms(1) by auto
  then have "partition_chr CHR ''['' hp = (hp, False, [])" by (rule partition_chr_absent)
  then show ?thesis by (simp add: hostinfo_def assms(2,3))
qed

lemma userinfo_plain:
  assumes "rpartition_chr CHR ''@'' nl = (info, hi, hp)"
      and "partition_chr CHR '':'' info = (u, hpw, pw)"
  shows "userinfo \<lparr>scheme = sch, netloc = nl\<rparr> =
           (if hi then (Some u, if hpw then Some pw else None) else (None, None))"
  by (simp add: userinfo_def assms)

lemma hostname_canonical:
  assumes "canonical_host host"
      and "fst (hostinfo parsed) = host"
  shows "hostname parsed = Some host"
proof -
  obtain a pct zone where p: "partition_chr CHR ''%'' host = (a, pct, zone)"
    by (cases "partition_chr CHR ''%'' host") auto
  have l: "lower a = a" and ne: "host \<noteq> []" using assms(1) p by (auto simp: canonical_host_def)
  have h: "host = a @ (if pct then ''%'' else []) @ zone"
    using partition_parts[OF p] by (cases pct) auto
  show ?thesis unfolding hostname_def assms(2) Let_def p using ne l h by simp
qed

lemma rebuild_canonical:
  assumes h: "canonical_host host"
      and c: "credentials creds"
      and n: "1 \<le> n" "n \<le> 65535"
      and ip: "\<not> (ip_pattern host \<and> \<not> octets_in_range host)"
  shows "rebuild \<lparr>scheme = sch, netloc = creds @ host @ '':'' @ str_nat n\<rparr>
           = Some (sch @ ''://'' @ creds @ host @ '':'' @ str_nat n)"
proof -
  let ?ds = "str_nat n"
  let ?hp = "host @ CHR '':'' # ?ds"
  let ?nl = "creds @ host @ '':'' @ ?ds"
  let ?P = "\<lparr>scheme = sch, netloc = ?nl\<rparr>"
  have dig: "list_all ascii_digit ?ds" by (rule str_nat_digits)
  have ds_ne: "?ds \<noteq> []" by (rule str_nat_nonempty)
  have ds_no: "CHR ''@'' \<notin> set ?ds" "CHR ''['' \<notin> set ?ds"
    using dig by (auto simp: list_all_iff ascii_digit_def)
  have hf: "host \<noteq> []" "CHR '':'' \<notin> set host" "CHR ''@'' \<notin> set host" "CHR ''['' \<notin> set host"
    using h by (auto simp: canonical_host_def)
  have at_hp: "CHR ''@'' \<notin> set ?hp" using hf ds_no by simp
  have pc: "partition_chr CHR '':'' ?hp = (host, True, ?ds)"
    using hf(2) partition_chr_found[of "CHR '':''" ?hp host ?ds] by simp
  have port_ok: "port \<lparr>scheme = sch, netloc = nl\<rparr> = Inr (Some n)"
    if "hostinfo \<lparr>scheme = sch, netloc = nl\<rparr> = (host, Some ?ds)" for nl
    using that dig n(2) str_nat_port_length[OF n(2)]
    by (simp add: port_def int_of_digits_str_nat Let_def)
  from c show ?thesis unfolding credentials_def
  proof (elim disjE exE conjE)
    assume e: "creds = []"
    have rp: "rpartition_chr CHR ''@'' ?nl = ([], False, ?hp)"
      using at_hp rpartition_chr_absent[of "CHR ''@''" ?hp] e by simp
    have br: "CHR ''['' \<notin> set ?nl" using e hf ds_no by simp
    have hi: "hostinfo ?P = (host, Some ?ds)"
      using hostinfo_plain[OF br rp pc] ds_ne by simp
    have hn: "hostname ?P = Some host" using hostname_canonical[OF h] hi by simp
    obtain u0 f0 p0 where "partition_chr CHR '':'' [] = (u0, f0, p0)"
      by (cases "partition_chr CHR '':'' []") auto
    from userinfo_plain[OF rp this] have ui: "userinfo ?P = (None, None)" by simp
    show ?thesis
      using hn port_ok[OF hi] ui n ip e
      by (simp add: rebuild_def username_def password_def)
  next
    fix u pw
    assume e: "creds = u @ '':'' @ pw @ ''@''" and une: "u \<noteq> []" and pne: "pw \<noteq> []"
       and uc: "CHR '':'' \<notin> set u" and ub: "CHR ''['' \<notin> set u" and pb: "CHR ''['' \<notin> set pw"
    let ?info = "u @ CHR '':'' # pw"
    have nl: "?nl = ?info @ CHR ''@'' # ?hp" using e by simp
    have rp: "rpartition_chr CHR ''@'' ?nl = (?info, True, ?hp)"
      using at_hp rpartition_chr_found[of "CHR ''@''" ?nl ?info ?hp] nl by simp
    have br: "CHR ''['' \<notin> set ?nl" using e hf ds_no ub pb by simp
    have hi: "hostinfo ?P = (host, Some ?ds)"
      using hostinfo_plain[OF br rp pc] ds_ne by simp
    have hn: "hostname ?P = Some host" using hostname_canonical[OF h] hi by simp
    have pi: "partition_chr CHR '':'' ?info = (u, True, pw)"
      using uc partition_chr_found[of "CHR '':''" ?info u pw] by simp
    have ui: "userinfo ?P = (Some u, Some pw)" using userinfo_plain[OF rp pi] by simp
    show ?thesis
      using hn port_ok[OF hi] ui n ip e une pne
      by (simp add: rebuild_def username_def password_def)
  qed
qed

lemma rebuild_shape:
  assumes r: "rebuild \<lparr>scheme = sch, netloc = nl\<rparr> = Some y"
      and cl: "clean nl"
  shows "\<exists>creds host n.
           y = sch @ ''://'' @ creds @ host @ '':'' @ str_nat n \<and>
           canonical_host host \<and> credentials creds \<and> 1 \<le> n \<and> n \<le> 65535 \<and>
           \<not> (ip_pattern host \<and> \<not> octets_in_range host) \<and> clean (creds @ host)"
proof -
  let ?P = "\<lparr>scheme = sch, netloc = nl\<rparr>"
  obtain info hi hp where rp: "rpartition_chr CHR ''@'' nl = (info, hi, hp)"
    by (cases "rpartition_chr CHR ''@'' nl") auto
  obtain h0 hc p where pc: "partition_chr CHR '':'' hp = (h0, hc, p)"
    by (cases "partition_chr CHR '':'' hp") auto
  obtain a pct zone where pz: "partition_chr CHR ''%'' h0 = (a, pct, zone)"
    by (cases "partition_chr CHR ''%'' h0") auto
  obtain u hpw pw where pu: "partition_chr CHR '':'' info = (u, hpw, pw)"
    by (cases "partition_chr CHR '':'' info") auto
  note rpp = rpartition_parts[OF rp]
  note pcp = partition_parts[OF pc]
  note pzp = partition_parts[OF pz]
  note pup = partition_parts[OF pu]
  have br: "CHR ''['' \<notin> set nl"
    using cl by (auto simp: clean_def list_all_iff special_def)
  have hi_eq: "hostinfo ?P = (h0, if p = [] then None else Some p)"
    using hostinfo_plain[OF br rp pc] .
  have ui_eq: "userinfo ?P = (if hi then (Some u, if hpw then Some pw else None) else (None, None))"
    using userinfo_plain[OF rp pu] .
  define host where "host = lower a @ (if pct then ''%'' else []) @ zone"
  define n where "n = int_of_digits p"
  define creds where
    "creds = (if hi \<and> hpw \<and> u \<noteq> [] \<and> pw \<noteq> [] then u @ '':'' @ pw @ ''@'' else [])"
  have hn: "hostname ?P = (if h0 = [] then None else Some host)"
    by (simp add: hostname_def hi_eq pz host_def)
  have pt: "port ?P = (if p = [] then Inr None
                       else if list_all ascii_digit p \<and> length p \<le> 4300
                            then (if n \<le> 65535 then Inr (Some n) else Inl ValueError)
                            else Inl ValueError)"
    by (simp add: port_def hi_eq n_def Let_def)
  have h0ne: "h0 \<noteq> []" using r hn by (auto simp: rebuild_def)
  have pfacts: "p \<noteq> [] \<and> list_all ascii_digit p \<and> length p \<le> 4300 \<and> n \<le> 65535 \<and> n \<noteq> 0"
    using r hn h0ne pt by (auto simp: rebuild_def split: if_splits)
  then have port_n: "port ?P = Inr (Some n)" using pt by simp
  have nr: "1 \<le> n" "n \<le> 65535" using pfacts by auto
  have ip: "\<not> (ip_pattern host \<and> \<not> octets_in_range host)"
    using r hn h0ne port_n nr by (auto simp: rebuild_def split: if_splits)
  have y: "y = sch @ ''://'' @ creds @ host @ '':'' @ str_nat n"
    using r hn h0ne port_n nr ip ui_eq
    by (auto simp: rebuild_def username_def password_def creds_def split: if_splits)
  have sub_hp: "set hp \<subseteq> set nl" and sub_info: "set info \<subseteq> set nl" using rpp by auto
  have sub_h0: "set h0 \<subseteq> set hp" using pcp by auto
  have sub_a: "set a \<subseteq> set h0" and sub_zone: "set zone \<subseteq> set h0" using pzp by auto
  have sub_u: "set u \<subseteq> set info" and sub_pw: "set pw \<subseteq> set info" using pup by auto
  have cl_h0: "clean h0" using cl sub_hp sub_h0 clean_subset by blast
  have cl_a: "clean a" and cl_zone: "clean zone" using cl_h0 sub_a sub_zone clean_subset by blast+
  have cl_u: "clean u" and cl_pw: "clean pw"
    using cl sub_info sub_u sub_pw clean_subset by blast+
  have cl_host: "clean host"
    using clean_lower[OF cl_a] cl_zone by (simp add: host_def)
  have cl_creds: "clean creds" using cl_u cl_pw by (simp add: creds_def)
  have no_colon: "CHR '':'' \<notin> set h0" using pcp by simp
  have no_at: "CHR ''@'' \<notin> set h0" using rpp sub_h0 by auto
  have no_br: "CHR ''['' \<notin> set h0" using br sub_hp sub_h0 by auto
  have low: "d \<in> set (lower a) \<longleftrightarrow> d \<in> set a"
    if "d = CHR '':'' \<or> d = CHR ''@'' \<or> d = CHR ''['' \<or> d = CHR ''%''" for d
    using that by (intro lower_notin) auto
  have host_chars: "d \<notin> set host"
    if "d = CHR '':'' \<or> d = CHR ''@'' \<or> d = CHR ''[''" for d
  proof -
    have d0: "d \<notin> set h0" using that no_colon no_at no_br by auto
    have da: "d \<notin> set a" "d \<notin> set zone" using d0 sub_a sub_zone by auto
    have dl: "d \<notin> set (lower a)" using low[of d] that da by auto
    have dp: "d \<noteq> CHR ''%''" using that by auto
    show ?thesis using dl da dp by (simp add: host_def)
  qed
  have host_ne: "host \<noteq> []"
  proof (cases pct)
    case True
    then show ?thesis by (simp add: host_def)
  next
    case False
    then have "a = h0" using pzp by simp
    then show ?thesis using h0ne by (simp add: host_def lower_def)
  qed
  have pa: "CHR ''%'' \<notin> set (lower a)" using low[of "CHR ''%''"] pzp by simp
  have ph: "partition_chr CHR ''%'' host = (lower a, pct, zone)"
  proof (cases pct)
    case True
    then have "host = lower a @ CHR ''%'' # zone" by (simp add: host_def)
    then show ?thesis using pa True partition_chr_found[of "CHR ''%''" host "lower a" zone] by simp
  next
    case False
    then have z: "zone = []" using pzp by simp
    then have "host = lower a" using False by (simp add: host_def)
    then show ?thesis using pa False z partition_chr_absent[of "CHR ''%''" host] by simp
  qed
  have canon: "canonical_host host"
    using host_ne host_chars ph by (simp add: canonical_host_def lower_idem)
  have cred: "credentials creds"
  proof (cases "hi \<and> hpw \<and> u \<noteq> [] \<and> pw \<noteq> []")
    case True
    have "CHR '':'' \<notin> set u" using pup by simp
    moreover have "CHR ''['' \<notin> set u" "CHR ''['' \<notin> set pw"
      using br sub_info sub_u sub_pw by auto
    ultimately show ?thesis using True by (auto simp: credentials_def creds_def)
  next
    case False
    then show ?thesis by (auto simp: credentials_def creds_def)
  qed
  show ?thesis using y canon cred nr ip cl_creds cl_host by auto
qed

lemma set_strip: "set (strip s) \<subseteq> set s"
proof -
  have "set (dropWhile is_space (rev (dropWhile is_space s))) \<subseteq> set (rev (dropWhile is_space s))"
    by (rule set_dropWhileD[THEN subsetI])
  also have "\<dots> \<subseteq> set s" using set_dropWhileD[of _ is_space s] by auto
  finally show ?thesis by (simp add: strip_def)
qed

lemma with_scheme_form:
  "\<exists>sch rest. (sch = ''http'' \<or> sch = ''https'') \<and> with_scheme x = sch @ ''://'' @ rest \<and>
              set rest \<subseteq> set x"
proof -
  let ?p = "strip x"
  consider (a) "startswith ?p ''http://''" | (b) "startswith ?p ''https://''"
    | (c) "\<not> startswith ?p ''http://'' \<and> \<not> startswith ?p ''https://''" by blast
  then show ?thesis
  proof cases
    case a
    then have "take (length ''http://'') ?p = ''http://''" unfolding startswith_def .
    then have "?p = ''http://'' @ drop (length ''http://'') ?p" by (metis append_take_drop_id)
    then have "with_scheme x = ''http'' @ ''://'' @ drop (length ''http://'') ?p"
      using a by (simp add: with_scheme_def)
    moreover have "set (drop (length ''http://'') ?p) \<subseteq> set x"
      using set_strip[of x] set_drop_subset[of "length ''http://''" ?p] by blast
    ultimately show ?thesis by blast
  next
    case b
    then have "take (length ''https://'') ?p = ''https://''" unfolding startswith_def .
    then have "?p = ''https://'' @ drop (length ''https://'') ?p"
      by (metis append_take_drop_id)
    then have "with_scheme x = ''https'' @ ''://'' @ drop (length ''https://'') ?p"
      using b by (simp add: with_scheme_def)
    moreover have "set (drop (length ''https://'') ?p) \<subseteq> set x"
      using set_strip[of x] set_drop_subset[of "length ''https://''" ?p] by blast
    ultimately show ?thesis by blast
  next
    case c
    then have "with_scheme x = ''http'' @ ''://'' @ ?p" by (simp add: with_scheme_def)
    then show ?thesis using set_strip[of x] by blast
  qed
qed

lemma clean_parts:
  assumes "clean s"
  shows "filter (\<lambda>c. \<not> unsafe_url_byte c) s = s"
    and "takeWhile (\<lambda>c. \<not> netloc_delim c) s = s"
    and "CHR ''['' \<notin> set s" and "CHR '']'' \<notin> set s"
  using assms by (auto simp: clean_def list_all_iff special_def takeWhile_eq_all_conv filter_id_conv)

lemma clean_netloc:
  assumes "CHR ''['' \<notin> set nl" "CHR '']'' \<notin> set nl"
      and "nl = takeWhile (\<lambda>c. \<not> netloc_delim c) (filter (\<lambda>c. \<not> unsafe_url_byte c) rest)"
  shows "clean nl"
proof -
  have "\<not> special c" if "c \<in> set nl" for c
  proof -
    have 1: "\<not> netloc_delim c" using that assms(3) by (auto dest: set_takeWhileD)
    have "c \<in> set (filter (\<lambda>c. \<not> unsafe_url_byte c) rest)"
      using that assms(3) by (auto dest: set_takeWhileD)
    then have 2: "\<not> unsafe_url_byte c" by simp
    show ?thesis using 1 2 that assms(1,2) by (auto simp: special_def)
  qed
  then show ?thesis by (simp add: clean_def list_all_iff)
qed

text \<open>
  Where the input holds no opening bracket, normalizing is idempotent: an accepted
  input's canonical URL is accepted again and returned as it is. The bracketed hosts are
  the inputs on which it is not (C8 below).
\<close>

proposition normalize_idempotent_without_brackets:
  assumes acc: "normalize_proxy_url ok x = Some y"
      and nb: "CHR ''['' \<notin> set x"
  shows "normalize_proxy_url ok y = Some y"
proof -
  obtain sch rest where sch: "sch = ''http'' \<or> sch = ''https''"
      and ws: "with_scheme x = sch @ ''://'' @ rest" and sub: "set rest \<subseteq> set x"
    using with_scheme_form[of x] by blast
  define nl where
    "nl = takeWhile (\<lambda>c. \<not> netloc_delim c) (filter (\<lambda>c. \<not> unsafe_url_byte c) rest)"
  have nl_sub: "set nl \<subseteq> set rest" by (auto simp: nl_def dest: set_takeWhileD)
  have open_no: "CHR ''['' \<notin> set nl" using nl_sub sub nb by auto
  from acc obtain parsed where up: "urlparse ok (with_scheme x) = Inr parsed"
      and rb: "rebuild parsed = Some y"
    by (auto simp: normalize_via_rebuild split: if_splits sum.splits)
  have us: "urlsplit ok (sch @ ''://'' @ rest) = Inr parsed" using up ws by (simp add: urlparse_def)
  have close_no: "CHR '']'' \<notin> set nl"
    using us open_no unfolding urlsplit_prefixed[OF sch] nl_def[symmetric] Let_def
    by (auto split: if_splits)
  have parsed: "parsed = \<lparr>scheme = sch, netloc = nl\<rparr>"
    using us open_no close_no unfolding urlsplit_prefixed[OF sch] nl_def[symmetric] Let_def
    by (auto split: if_splits)
  have cl: "clean nl" using clean_netloc[OF open_no close_no nl_def] .
  from rebuild_shape[OF rb[unfolded parsed] cl]
  obtain creds host n where y: "y = sch @ ''://'' @ creds @ host @ '':'' @ str_nat n"
      and canon: "canonical_host host" and cred: "credentials creds"
      and n: "1 \<le> n" "n \<le> 65535"
      and ip: "\<not> (ip_pattern host \<and> \<not> octets_in_range host)"
      and clch: "clean (creds @ host)"
    by blast
  let ?nl' = "creds @ host @ '':'' @ str_nat n"
  have dig: "list_all ascii_digit (str_nat n)" by (rule str_nat_digits)
  have ds_ne: "str_nat n \<noteq> []" by (rule str_nat_nonempty)
  have cl': "clean ?nl'" using clch clean_digits[OF dig] by simp
  have last_nl: "last ?nl' = last (str_nat n)" using ds_ne by simp
  have "last y = last (str_nat n)" using ds_ne by (simp add: y)
  moreover have "ascii_digit (last (str_nat n))" using dig ds_ne by (simp add: list_all_iff)
  ultimately have last_ok: "\<not> is_space (last y)" using digit_not_space by simp
  have hd_ok: "\<not> is_space (hd y)" using sch by (auto simp: y is_space_def)
  have y_ne: "y \<noteq> []" using sch by (auto simp: y)
  have sy: "strip y = y" using strip_id[OF y_ne hd_ok last_ok] .
  have wy0: "with_scheme y =
      (if startswith y ''http://'' \<or> startswith y ''https://'' then y else ''http://'' @ y)"
    by (simp add: with_scheme_def sy Let_def)
  have sw: "startswith y ''http://'' \<or> startswith y ''https://''"
    using sch by (auto simp: y startswith_def)
  have wy: "with_scheme y = sch @ ''://'' @ ?nl'"
    unfolding wy0 using sw by (simp add: y)
  have "urlsplit ok (sch @ ''://'' @ ?nl') = Inr \<lparr>scheme = sch, netloc = ?nl'\<rparr>"
    unfolding urlsplit_prefixed[OF sch] clean_parts(1,2)[OF cl'] Let_def
    using clean_parts(3,4)[OF cl'] by simp
  then have "urlparse ok (with_scheme y) = Inr \<lparr>scheme = sch, netloc = ?nl'\<rparr>"
    by (simp add: urlparse_def wy)
  then have "normalize_proxy_url ok y = rebuild \<lparr>scheme = sch, netloc = ?nl'\<rparr>"
    using y_ne by (simp add: normalize_via_rebuild sy)
  then show ?thesis using rebuild_canonical[OF canon cred n ip, of sch] y by simp
qed

section \<open>Facts about the concrete inputs\<close>

lemma two_blacklisted_file:
  "blacklist_file two_blacklisted =
     Some (''1.1.1.1:8080  # Timeout - 2024-05-01 10:00:00'' @ [CHR 0x0A] @
           ''1.1.1.1:80  # Timeout - 2024-05-01 10:00:07'' @ [CHR 0x0A])"
  by (simp add: two_blacklisted_def no_files_def add_to_blacklist_def text_defs
        blacklist_line_def append_file_def invalidate_cache_def Let_def)

lemma stale_cache_files:
  "blacklist_file stale_cache =
     Some (''http://10.0.0.1:8080  # Timeout - 2024-05-01 09:59:58'' @ [CHR 0x0A]) \<and>
   valid_proxy_pool_file stale_cache =
     Some (Json \<lparr>last_updated = Some 1714557600,
                 valid_proxies = Some [''http://10.0.0.1:8080''],
                 tested_count = 0, total_pool_count = 1\<rparr>)"
  by (simp add: stale_cache_def one_proxy_pool_def no_files_def add_to_blacklist_def text_defs
        blacklist_line_def append_file_def invalidate_cache_def save_valid_proxy_cache_def
        Let_def)

lemma stale_listed: "''http://10.0.0.1:8080'' \<in> spec_load_blacklist stale_cache"
  by (simp add: spec_load_blacklist_loop stale_cache_files text_defs)

lemma proxy_ok_example: "proxy_url_ok unchecked_brackets ''http://10.0.0.1:8080''"
  by (simp add: proxy_url_ok_def url_defs)

lemma calculate_one_proxy_pool:
  "calculate_valid_proxies one_proxy_pool = [''http://10.0.0.1:8080'']"
  by (simp add: calculate_valid_proxies_def pool_entries_def one_proxy_pool_def no_files_def
        text_defs Let_def)

lemma calculate_small_pool: "calculate_valid_proxies small_pool = [''a:1'', ''b:2'']"
  by (simp add: calculate_valid_proxies_def pool_entries_def small_pool_def no_files_def
        text_defs Let_def)

lemma calculate_cached_pool: "calculate_valid_proxies cached_pool = [''a:1'', ''b:2'']"
  using calculate_small_pool
  by (simp add: calculate_valid_proxies_def pool_entries_def cached_pool_def
        save_valid_proxy_cache_def)

lemma load_one_proxy_pool:
  "load_valid_proxies t one_proxy_pool = ([''http://10.0.0.1:8080''], one_proxy_pool)"
proof -
  have "\<not> cache_fresh t one_proxy_pool"
    by (simp add: cache_fresh_def one_proxy_pool_def no_files_def)
  then show ?thesis by (simp add: load_valid_proxies_cases calculate_one_proxy_pool)
qed

lemma suspect_checker_eq:
  "suspect_checker =
     \<lparr>manager = one_proxy_pool, proxies = [''http://10.0.0.1:8080''],
      blacklisted_proxies = {}, failed_proxy_attempts = [''http://10.0.0.1:8080'' \<mapsto> 2],
      max_proxy_failures = 3\<rparr>"
proof -
  have b: "fail_count (checker_on one_proxy_pool 3) ''http://10.0.0.1:8080''
             + int (length [(''Timeout'', ''2024-05-01 10:00:00''),
                            (''SSLError'', ''2024-05-01 10:00:09'')])
           < max_proxy_failures (checker_on one_proxy_pool 3)"
    by (simp add: fail_count_def checker_on_def)
  show ?thesis
    unfolding suspect_checker_def handle_failures_below[OF b]
    by (simp add: checker_on_def load_one_proxy_pool fail_count_def)
qed

lemma suspect_checker_selects:
  "get_random_proxy unchecked_brackets 1714557660 0 suspect_checker
     = (Some ''http://10.0.0.1:8080'', suspect_checker)"
  by (simp add: get_random_proxy_def suspect_checker_eq load_one_proxy_pool proxy_ok_example
        Let_def)

section \<open>The claims\<close>

subsection \<open>C1: eviction at the failure threshold\<close>

text \<open>
  As stated, C1 fails where the endpoint is already recorded in the blacklist file:
  \<open>add_to_blacklist\<close> then writes nothing and leaves the cache alone. In \<open>stale_cache\<close> the
  cached snapshot still lists the blacklisted proxy, \<open>_get_random_proxy\<close> hands it out, and
  the failure report at threshold 1 changes neither the blacklist file nor the cache.
\<close>

theorem eviction_counterexample:
  "failed_proxy_attempts (checker_on stale_cache 1) ''http://10.0.0.1:8080'' = None \<and>
   max_proxy_failures (checker_on stale_cache 1) = 1 \<and>
   fst (get_random_proxy unchecked_brackets 1714557660 0 (checker_on stale_cache 1))
     = Some ''http://10.0.0.1:8080'' \<and>
   blacklist_file (manager (handle_proxy_failure ''http://10.0.0.1:8080'' ''ProxyError''
        ''2024-05-01 10:01:00'' (checker_on stale_cache 1))) = blacklist_file stale_cache \<and>
   valid_proxy_pool_file (manager (handle_proxy_failure ''http://10.0.0.1:8080'' ''ProxyError''
        ''2024-05-01 10:01:00'' (checker_on stale_cache 1))) = valid_proxy_pool_file stale_cache \<and>
   valid_proxy_pool_file stale_cache \<noteq> None"
proof -
  have g: "fst (get_random_proxy unchecked_brackets 1714557660 0 (checker_on stale_cache 1))
     = Some ''http://10.0.0.1:8080''"
    by (simp add: get_random_proxy_def load_valid_proxies_def checker_on_def stale_cache_files
          proxy_ok_example Let_def)
  have h: "manager (handle_proxy_failure ''http://10.0.0.1:8080'' ''ProxyError''
        ''2024-05-01 10:01:00'' (checker_on stale_cache 1)) = stale_cache"
    using handle_at_threshold[of "checker_on stale_cache 1" "''http://10.0.0.1:8080''"]
      stale_listed
    by (simp add: fail_count_def checker_on_def add_to_blacklist_cases)
  show ?thesis using g h by (simp add: checker_on_def stale_cache_files)
qed

text \<open>
  C1, amended. Let the consecutive-failure counter of \<open>e\<close> be clear and the threshold be
  \<open>N\<close>. After \<open>N\<close> failure reports for \<open>e\<close> in a row: \<open>e\<close> is in the session blacklist, its
  counter is deleted, its first occurrence is removed from the in-memory proxy list (so
  that \<open>e\<close> is gone from a list without repetitions), and no later \<open>_get_random_proxy\<close>
  returns \<open>e\<close>, whatever events come between (reports, requests, selections, changes to
  the files from outside). If \<open>e\<close> was not yet recorded in
  the blacklist file, the line of the last report is appended to it and the cache file is
  removed; if it was, the manager's files stay as they are.
\<close>

theorem eviction_after_threshold:
  assumes "int (length reports) + 1 = max_proxy_failures st"
      and "failed_proxy_attempts st e = None"
  shows "e \<in> blacklisted_proxies (handle_failures e (reports @ [(reason, stamp)]) st) \<and>
         failed_proxy_attempts (handle_failures e (reports @ [(reason, stamp)]) st) e = None \<and>
         proxies (handle_failures e (reports @ [(reason, stamp)]) st) = remove1 e (proxies st) \<and>
         manager (handle_failures e (reports @ [(reason, stamp)]) st) =
           (if e \<in> spec_load_blacklist (manager st) then manager st
            else (manager st)\<lparr>blacklist_file :=
                      append_file (blacklist_file (manager st)) (blacklist_line e reason stamp),
                    valid_proxy_pool_file := None\<rparr>) \<and>
         (\<forall>ok events now rnd.
            fst (get_random_proxy ok now rnd
                  (run ok events (handle_failures e (reports @ [(reason, stamp)]) st)))
              \<noteq> Some e) \<and>
         (distinct (proxies st) \<longrightarrow>
            e \<notin> set (proxies (handle_failures e (reports @ [(reason, stamp)]) st)))"
proof -
  let ?mid = "handle_failures e reports st"
  let ?fin = "handle_failures e (reports @ [(reason, stamp)]) st"
  have c0: "fail_count st e = 0" using assms(2) by (simp add: fail_count_def)
  have below: "fail_count st e + int (length reports) < max_proxy_failures st"
    using c0 assms(1) by simp
  have mid: "?mid = (if reports = [] then st
      else st\<lparr>failed_proxy_attempts :=
               (failed_proxy_attempts st)(e \<mapsto> fail_count st e + int (length reports))\<rparr>)"
    using handle_failures_below[OF below] .
  have cm: "fail_count ?mid e = int (length reports)"
    using mid c0 by (auto simp: fail_count_def)
  have mm: "max_proxy_failures ?mid = max_proxy_failures st" using mid by auto
  have at: "fail_count ?mid e + 1 \<ge> max_proxy_failures ?mid" using cm mm assms(1) by simp
  have fin: "?fin = ?mid\<lparr>manager := snd (add_to_blacklist e reason stamp (manager ?mid)),
        blacklisted_proxies := insert e (blacklisted_proxies ?mid),
        proxies := remove1 e (proxies ?mid),
        failed_proxy_attempts := (failed_proxy_attempts ?mid)(e := None)\<rparr>"
    using handle_at_threshold[OF at] by (simp add: handle_failures_append)
  have man: "manager ?mid = manager st" and prx: "proxies ?mid = proxies st"
    using mid by auto
  have 1: "e \<in> blacklisted_proxies ?fin" by (subst fin) simp
  have 2: "failed_proxy_attempts ?fin e = None" by (subst fin) simp
  have 3: "proxies ?fin = remove1 e (proxies st)" by (subst fin) (simp add: prx)
  have 4: "manager ?fin = (if e \<in> spec_load_blacklist (manager st) then manager st
            else (manager st)\<lparr>blacklist_file :=
                      append_file (blacklist_file (manager st)) (blacklist_line e reason stamp),
                    valid_proxy_pool_file := None\<rparr>)"
    by (subst fin) (simp add: man add_to_blacklist_cases)
  have 5: "\<forall>ok events now rnd.
            fst (get_random_proxy ok now rnd (run ok events ?fin)) \<noteq> Some e"
    using never_returned[OF 1] by blast
  have 6: "distinct (proxies st) \<longrightarrow> e \<notin> set (proxies ?fin)"
    unfolding 3 by simp
  show ?thesis using 1 2 3 4 5 6 by blast
qed

text \<open>
  The amended C1 at threshold 2: a \<open>Timeout\<close> and a \<open>ProxyError\<close> for the one proxy of the
  pool; its line is appended to the (missing) blacklist file and it is not handed out
  after a further request.
\<close>

theorem eviction_after_threshold_witness:
  "int (length [(''Timeout'', ''2024-05-01 10:00:00'')]) + 1
     = max_proxy_failures (checker_on one_proxy_pool 2) \<and>
   failed_proxy_attempts (checker_on one_proxy_pool 2) ''http://10.0.0.1:8080'' = None \<and>
   ''http://10.0.0.1:8080'' \<in> blacklisted_proxies
      (handle_failures ''http://10.0.0.1:8080''
         ([(''Timeout'', ''2024-05-01 10:00:00'')] @ [(''ProxyError'', ''2024-05-01 10:00:09'')])
         (checker_on one_proxy_pool 2)) \<and>
   blacklist_file (manager
      (handle_failures ''http://10.0.0.1:8080''
         ([(''Timeout'', ''2024-05-01 10:00:00'')] @ [(''ProxyError'', ''2024-05-01 10:00:09'')])
         (checker_on one_proxy_pool 2)))
     = Some (''http://10.0.0.1:8080  # ProxyError - 2024-05-01 10:00:09'' @ [CHR 0x0A]) \<and>
   fst (get_random_proxy unchecked_brackets 1714557700 0
      (run unchecked_brackets [Request 1714557660 0 Timeout ''2024-05-01 10:01:00'']
        (handle_failures ''http://10.0.0.1:8080''
           ([(''Timeout'', ''2024-05-01 10:00:00'')] @ [(''ProxyError'', ''2024-05-01 10:00:09'')])
           (checker_on one_proxy_pool 2)))) \<noteq> Some ''http://10.0.0.1:8080''"
proof -
  have n: "(''http://10.0.0.1:8080'' \<in> spec_load_blacklist (manager (checker_on one_proxy_pool 2)))
             = False"
    by (simp add: spec_load_blacklist_loop checker_on_def one_proxy_pool_def no_files_def
          read_lines_def)
  have a: "int (length [(''Timeout'', ''2024-05-01 10:00:00'')]) + 1
     = max_proxy_failures (checker_on one_proxy_pool 2)"
    by (simp add: checker_on_def)
  have b: "failed_proxy_attempts (checker_on one_proxy_pool 2) ''http://10.0.0.1:8080'' = None"
    by (simp add: checker_on_def)
  note c = eviction_after_threshold[OF a b, of "''ProxyError''" "''2024-05-01 10:00:09''"]
  note c1 = c[THEN conjunct1]
  note c4 = c[THEN conjunct2, THEN conjunct2, THEN conjunct2, THEN conjunct1]
  note c5 = c[THEN conjunct2, THEN conjunct2, THEN conjunct2, THEN conjunct2, THEN conjunct1,
      rule_format,
      of unchecked_brackets 1714557700 0
         "[Request 1714557660 0 Timeout ''2024-05-01 10:01:00'']"]
  have f: "blacklist_file (manager
      (handle_failures ''http://10.0.0.1:8080''
         ([(''Timeout'', ''2024-05-01 10:00:00'')] @ [(''ProxyError'', ''2024-05-01 10:00:09'')])
         (checker_on one_proxy_pool 2)))
     = Some (''http://10.0.0.1:8080  # ProxyError - 2024-05-01 10:00:09'' @ [CHR 0x0A])"
    unfolding c4 n
    by (simp add: checker_on_def one_proxy_pool_def no_files_def append_file_def
          blacklist_line_def)
  show ?thesis using a b c1 f c5 by blast
qed

subsection \<open>C2: serving the cache or recomputing\<close>

text \<open>
  As stated, C2 fails in its second half: \<open>load_valid_proxies\<close> writes no snapshot. With
  no cache file none exists afterwards, and a stale snapshot stays as it was.
\<close>

theorem load_publishes_nothing_counterexample:
  "\<not> cache_fresh 1714557600 small_pool \<and>
   valid_proxy_pool_file (snd (load_valid_proxies 1714557600 small_pool)) = None \<and>
   \<not> cache_fresh 1714558000 cached_pool \<and>
   valid_proxy_pool_file (snd (load_valid_proxies 1714558000 cached_pool))
     = valid_proxy_pool_file cached_pool"
  by (simp add: load_valid_proxies_cases cache_fresh_def small_pool_def no_files_def
        cached_pool_def save_valid_proxy_cache_def)

text \<open>
  C2, amended. If a cached snapshot exists whose age is less than five minutes,
  \<open>load_valid_proxies\<close> returns its \<open>valid_proxies\<close> list unchanged; otherwise it recomputes
  the pool minus the blacklist and returns that. In both cases it leaves the cache file
  and the rest of the manager's state as they were: it publishes no snapshot.
\<close>

theorem load_serves_cache_or_recomputes:
  "(cache_fresh now pm \<longrightarrow> load_valid_proxies now pm = (cached_list pm, pm)) \<and>
   (\<not> cache_fresh now pm \<longrightarrow>
      load_valid_proxies now pm = (calculate_valid_proxies pm, pm) \<and>
      set (calculate_valid_proxies pm) = spec_load_pool pm - spec_load_blacklist pm)"
proof (cases "cache_fresh now pm")
  case True
  then have "load_valid_proxies now pm = (cached_list pm, pm)"
    by (simp add: load_valid_proxies_cases)
  then show ?thesis using True by simp
next
  case False
  then have "load_valid_proxies now pm = (calculate_valid_proxies pm, pm)"
    by (simp add: load_valid_proxies_cases)
  then show ?thesis using False set_calculate_valid_proxies[of pm] by simp
qed

text \<open>
  The amended C2 on a snapshot saved at 10:00:00 that lists one proxy of a pool of two:
  served at 10:01:40, recomputed at 10:06:40.
\<close>

theorem load_serves_cache_or_recomputes_witness:
  "cache_fresh 1714557700 cached_pool \<and>
   load_valid_proxies 1714557700 cached_pool = ([''b:2''], cached_pool) \<and>
   \<not> cache_fresh 1714558000 cached_pool \<and>
   load_valid_proxies 1714558000 cached_pool = ([''a:1'', ''b:2''], cached_pool)"
proof -
  have f: "cache_fresh 1714557700 cached_pool"
    by (simp add: cache_fresh_def cached_pool_def save_valid_proxy_cache_def)
  have l: "cached_list cached_pool = [''b:2'']"
    by (simp add: cached_list_def cached_pool_def save_valid_proxy_cache_def)
  have s: "\<not> cache_fresh 1714558000 cached_pool"
    by (simp add: cache_fresh_def cached_pool_def save_valid_proxy_cache_def)
  show ?thesis
    using f l s load_serves_cache_or_recomputes[of 1714557700 cached_pool]
      load_serves_cache_or_recomputes[of 1714558000 cached_pool] calculate_cached_pool
    by simp
qed

subsection \<open>C3: the valid set right after invalidation\<close>

text \<open>
  C3. Right after \<open>_invalidate_cache\<close>, whatever the pool and blacklist files hold,
  \<open>load_valid_proxies\<close> returns exactly the elements of the pool minus the blacklist, as
  the specification words the two sets, each of them once.
\<close>

theorem load_after_invalidate_is_pool_minus_blacklist:
  "set (fst (load_valid_proxies now (invalidate_cache pm)))
     = spec_load_pool pm - spec_load_blacklist pm \<and>
   distinct (fst (load_valid_proxies now (invalidate_cache pm)))"
proof -
  have none: "valid_proxy_pool_file (invalidate_cache pm) = None"
    by (simp add: invalidate_cache_def)
  have files: "spec_load_pool (invalidate_cache pm) = spec_load_pool pm"
    "spec_load_blacklist (invalidate_cache pm) = spec_load_blacklist pm"
    by (simp_all add: invalidate_cache_def spec_load_pool_def spec_load_blacklist_def)
  have "fst (load_valid_proxies now (invalidate_cache pm))
          = calculate_valid_proxies (invalidate_cache pm)"
    by (simp add: load_valid_proxies_def none)
  then show ?thesis
    using set_calculate_valid_proxies[of "invalidate_cache pm"]
      distinct_calculate_valid_proxies[of "invalidate_cache pm"] files
    by simp
qed

subsection \<open>C4: the batch selected for probing\<close>

text \<open>
  C4 at \<open>max_test = 0\<close>: the cooldown loop checks its bound only after appending, so it
  selects the first eligible candidate, a batch of one where at most zero were asked
  for, and the call probes that candidate (its test time is recorded); the random branch
  selects none. For a bound of at least one the claim holds (\<open>select_in_order\<close>,
  \<open>select_respects_cooldown\<close>, \<open>select_sample_size\<close>).
\<close>

theorem select_with_zero_max_test:
  "select_test_proxies at_noon [''a:1'', ''b:2''] 0 True no_files = Inr [''a:1''] \<and>
   select_test_proxies at_noon [''a:1'', ''b:2''] 0 False no_files = Inr [] \<and>
   test_and_filter_proxies at_noon [''a:1'', ''b:2''] 0 True no_files
     = Inr ([], no_files\<lparr>last_tested_proxies := [''a:1'' \<mapsto> 1714557601]\<rparr>)"
proof -
  have s: "select_test_proxies at_noon [''a:1'', ''b:2''] 0 True no_files = Inr [''a:1'']"
    by (simp add: select_test_proxies_def at_noon_def no_files_def test_cooldown_def)
  have r: "select_test_proxies at_noon [''a:1'', ''b:2''] 0 False no_files = Inr []"
    by (simp add: select_test_proxies_def random_sample_def)
  have t: "test_and_filter_proxies at_noon [''a:1'', ''b:2''] 0 True no_files
     = Inr ([], no_files\<lparr>last_tested_proxies := [''a:1'' \<mapsto> 1714557601]\<rparr>)"
    unfolding test_and_filter_proxies_def s
    by (simp add: at_noon_def no_files_def startswith_def)
  show ?thesis using s r t by blast
qed

subsection \<open>C5: what a background pass publishes\<close>

text \<open>
  As stated, C5 fails on a pass that finds the valid set empty: the pass is guarded by
  \<open>if valid_proxies\<close> and then writes no snapshot. With no pool file the cache file is
  still missing after the pass.
\<close>

theorem background_pass_counterexample:
  "calculate_valid_proxies no_files = [] \<and>
   valid_proxy_pool_file (background_cycle cycle_at_noon no_files) = None"
  by (simp add: background_cycle_def calculate_valid_proxies_def no_files_def pool_entries_def
        read_lines_def)

text \<open>
  C5, amended. A pass of the background loop recomputes the valid set (pool minus
  blacklist). If that set is not empty, the pass selects the first (at most ten) valid
  proxies that are off cooldown, probes them (recording their test time), and writes a
  new snapshot holding the whole valid set, the time of the save and the number of
  proxies found live, whatever the probes gave, also when none is live. If the valid set
  is empty the pass changes nothing and writes no snapshot.
\<close>

theorem background_pass_publishes:
  "(calculate_valid_proxies pm \<noteq> [] \<longrightarrow>
      select_test_proxies (testing env) (calculate_valid_proxies pm) 10 True pm
        = Inr (cycle_batch env pm) \<and>
      length (cycle_batch env pm) \<le> 10 \<and>
      last_tested_proxies (background_cycle env pm) =
        (\<lambda>p. if p \<in> set (cycle_batch env pm) then Some (probe_time (testing env))
             else last_tested_proxies pm p) \<and>
      valid_proxy_pool_file (background_cycle env pm) =
        Some (Json \<lparr>last_updated = Some (save_time env),
                    valid_proxies = Some (calculate_valid_proxies pm),
                    tested_count =
                      length (filter (probe_ok (probe (testing env))) (cycle_batch env pm)),
                    total_pool_count = length (calculate_valid_proxies pm)\<rparr>)) \<and>
   (calculate_valid_proxies pm = [] \<longrightarrow> background_cycle env pm = pm)"
proof -
  have sel: "select_test_proxies (testing env) (calculate_valid_proxies pm) 10 True pm
        = Inr (cycle_batch env pm)"
    by (simp add: select_cooldown_10 cycle_batch_def)
  have len: "length (cycle_batch env pm) \<le> 10" by (simp add: cycle_batch_def)
  show ?thesis
    using sel len
    by (auto simp: background_cycle_def Let_def test_and_filter_proxies_def probe_loop_eq
          save_valid_proxy_cache_def)
qed

text \<open>
  The amended C5 on a pool of two proxies whose probes both fail: the snapshot is
  written, with both proxies as the valid set and a tested count of 0.
\<close>

theorem background_pass_publishes_witness:
  "calculate_valid_proxies small_pool \<noteq> [] \<and>
   cycle_batch cycle_at_noon small_pool = [''a:1'', ''b:2''] \<and>
   valid_proxy_pool_file (background_cycle cycle_at_noon small_pool) =
     Some (Json \<lparr>last_updated = Some 1714557605, valid_proxies = Some [''a:1'', ''b:2''],
                 tested_count = 0, total_pool_count = 2\<rparr>)"
proof -
  have v: "calculate_valid_proxies small_pool \<noteq> []" by (simp add: calculate_small_pool)
  have u: "last_tested_proxies small_pool = Map.empty"
    by (simp add: small_pool_def no_files_def)
  have b: "cycle_batch cycle_at_noon small_pool = [''a:1'', ''b:2'']"
    by (simp add: cycle_batch_def calculate_small_pool eligible_def test_cooldown_def
          cycle_at_noon_def at_noon_def u)
  have p: "filter (probe_ok (probe (testing cycle_at_noon))) [''a:1'', ''b:2''] = []"
    by (simp add: probe_ok_def cycle_at_noon_def at_noon_def)
  have t: "save_time cycle_at_noon = 1714557605" by (simp add: cycle_at_noon_def)
  note w = background_pass_publishes[of small_pool cycle_at_noon, THEN conjunct1, rule_format,
      OF v, THEN conjunct2, THEN conjunct2, THEN conjunct2]
  have f: "valid_proxy_pool_file (background_cycle cycle_at_noon small_pool) =
     Some (Json \<lparr>last_updated = Some 1714557605, valid_proxies = Some [''a:1'', ''b:2''],
                 tested_count = 0, total_pool_count = 2\<rparr>)"
    using w unfolding b p t calculate_small_pool by simp
  show ?thesis using v b f by blast
qed

subsection \<open>C6: a success resets the failure counter, a slow response does not\<close>

text \<open>
  C6. Let \<open>e\<close> be the proxy that \<open>_make_request\<close> uses, with \<open>k\<close> failures pending, below
  the threshold. If the request completes within 2.0 seconds, \<open>e\<close>'s failure record is
  deleted, and fewer reports than the threshold after that do not evict \<open>e\<close>: it stays
  out of the session blacklist and the manager's files stay as they are. If the request
  completes after more than 2.0 seconds, the record is not reset; the response is
  handled as a failure of \<open>e\<close>, which raises the count to \<open>k + 1\<close> or, at the threshold,
  evicts \<open>e\<close>.
\<close>

theorem success_resets_slow_counts:
  assumes "get_random_proxy ok now rnd st = (Some e, st1)"
      and "failed_proxy_attempts st e = Some k"
      and "k < max_proxy_failures st"
  shows "(delay \<le> 2 \<longrightarrow>
            make_request ok now rnd (Completed delay shown) stamp st
              = (True, st1\<lparr>failed_proxy_attempts := (failed_proxy_attempts st)(e := None)\<rparr>) \<and>
            (\<forall>reports. int (length reports) < max_proxy_failures st \<longrightarrow>
               e \<notin> blacklisted_proxies
                     (handle_failures e reports
                        (snd (make_request ok now rnd (Completed delay shown) stamp st))) \<and>
               manager (handle_failures e reports
                        (snd (make_request ok now rnd (Completed delay shown) stamp st)))
                 = manager st)) \<and>
         (delay > 2 \<longrightarrow>
            make_request ok now rnd (Completed delay shown) stamp st
              = (True, handle_proxy_failure e (''SlowResponse ('' @ shown @ ''s)'') stamp st1) \<and>
            (k + 1 < max_proxy_failures st \<longrightarrow>
               failed_proxy_attempts
                 (snd (make_request ok now rnd (Completed delay shown) stamp st)) e
                 = Some (k + 1)) \<and>
            (k + 1 \<ge> max_proxy_failures st \<longrightarrow>
               e \<in> blacklisted_proxies
                     (snd (make_request ok now rnd (Completed delay shown) stamp st))))"
proof -
  have st1: "st1 = st\<lparr>proxies := fst (load_valid_proxies now (manager st))\<rparr>"
    using get_random_proxy_some[OF assms(1)] .
  have nb: "e \<notin> blacklisted_proxies st"
    using get_random_proxy_not_blacklisted[OF assms(1)] .
  let ?ok = "st1\<lparr>failed_proxy_attempts := (failed_proxy_attempts st)(e := None)\<rparr>"
  have fast: "make_request ok now rnd (Completed delay shown) stamp st = (True, ?ok)"
    if "delay \<le> 2"
    using that assms(1,2) st1 by (simp add: make_request_def)
  have later: "e \<notin> blacklisted_proxies (handle_failures e reports ?ok) \<and>
               manager (handle_failures e reports ?ok) = manager st"
    if "int (length reports) < max_proxy_failures st" for reports
  proof -
    have c: "fail_count ?ok e = 0" by (simp add: fail_count_def)
    have m: "max_proxy_failures ?ok = max_proxy_failures st" using st1 by simp
    have b: "fail_count ?ok e + int (length reports) < max_proxy_failures ?ok"
      using c m that by simp
    show ?thesis
      using handle_failures_below[OF b] nb st1 by (cases "reports = []") auto
  qed
  have slow: "make_request ok now rnd (Completed delay shown) stamp st
              = (True, handle_proxy_failure e (''SlowResponse ('' @ shown @ ''s)'') stamp st1)"
    if "delay > 2"
    using that assms(1) by (simp add: make_request_def report_failure_def)
  have c1: "fail_count st1 e = k" using st1 assms(2) by (simp add: fail_count_def)
  have m1: "max_proxy_failures st1 = max_proxy_failures st" using st1 by simp
  have s1: "failed_proxy_attempts
              (handle_proxy_failure e (''SlowResponse ('' @ shown @ ''s)'') stamp st1) e
              = Some (k + 1)"
    if "k + 1 < max_proxy_failures st"
    using that handle_below_threshold[of st1 e] c1 m1 by simp
  have s2: "e \<in> blacklisted_proxies
              (handle_proxy_failure e (''SlowResponse ('' @ shown @ ''s)'') stamp st1)"
    if "k + 1 \<ge> max_proxy_failures st"
    using that handle_at_threshold[of st1 e] c1 m1 by simp
  show ?thesis using fast later slow s1 s2 by simp
qed

text \<open>
  C6 on a checker with two failures of its proxy pending and a threshold of three: a
  response after 0.8 seconds deletes the record, and two further reports do not evict
  the proxy; a response after 2.5 seconds is the third failure and evicts it.
\<close>

theorem success_resets_slow_counts_witness:
  "get_random_proxy unchecked_brackets 1714557660 0 suspect_checker
     = (Some ''http://10.0.0.1:8080'', suspect_checker) \<and>
   failed_proxy_attempts suspect_checker ''http://10.0.0.1:8080'' = Some 2 \<and>
   2 < max_proxy_failures suspect_checker \<and>
   failed_proxy_attempts
     (snd (make_request unchecked_brackets 1714557660 0 (Completed 0.8 ''0.80'')
             ''2024-05-01 10:01:00'' suspect_checker)) ''http://10.0.0.1:8080'' = None \<and>
   ''http://10.0.0.1:8080'' \<notin> blacklisted_proxies
     (handle_failures ''http://10.0.0.1:8080''
        [(''Timeout'', ''2024-05-01 10:02:00''), (''Timeout'', ''2024-05-01 10:03:00'')]
        (snd (make_request unchecked_brackets 1714557660 0 (Completed 0.8 ''0.80'')
                ''2024-05-01 10:01:00'' suspect_checker))) \<and>
   ''http://10.0.0.1:8080'' \<in> blacklisted_proxies
     (snd (make_request unchecked_brackets 1714557660 0 (Completed 2.5 ''2.50'')
             ''2024-05-01 10:01:00'' suspect_checker))"
proof -
  have k: "failed_proxy_attempts suspect_checker ''http://10.0.0.1:8080'' = Some 2"
    by (simp add: suspect_checker_eq)
  have m: "max_proxy_failures suspect_checker = 3" by (simp add: suspect_checker_eq)
  have lt: "2 < max_proxy_failures suspect_checker" using m by simp
  note fast = success_resets_slow_counts[OF suspect_checker_selects k lt,
      of "0.8" "''0.80''" "''2024-05-01 10:01:00''"]
  note slow = success_resets_slow_counts[OF suspect_checker_selects k lt,
      of "2.5" "''2.50''" "''2024-05-01 10:01:00''"]
  have le: "(0.8::real) \<le> 2" by simp
  have gt: "(2.5::real) > 2" by simp
  note f1 = fast[THEN conjunct1, rule_format, OF le]
  have r: "failed_proxy_attempts
     (snd (make_request unchecked_brackets 1714557660 0 (Completed 0.8 ''0.80'')
             ''2024-05-01 10:01:00'' suspect_checker)) ''http://10.0.0.1:8080'' = None"
    unfolding f1[THEN conjunct1] by simp
  have two: "int (length [(''Timeout'', ''2024-05-01 10:02:00''),
                          (''Timeout'', ''2024-05-01 10:03:00'')])
               < max_proxy_failures suspect_checker"
    using m by simp
  note n = f1[THEN conjunct2, rule_format, OF two, THEN conjunct1]
  have three: "max_proxy_failures suspect_checker \<le> 2 + 1" using m by simp
  note e = slow[THEN conjunct2, rule_format, OF gt, THEN conjunct2, THEN conjunct2,
      rule_format, OF three]
  show ?thesis using suspect_checker_selects k lt r n e by blast
qed

subsection \<open>C7: what removal from the blacklist leaves\<close>

text \<open>
  C7 on a blacklist file with the entries \<open>1.1.1.1:8080\<close> and \<open>1.1.1.1:80\<close>, each written by
  \<open>add_to_blacklist\<close>: removing \<open>1.1.1.1:80\<close> drops both lines, since the test is whether
  the text occurs in the line, and the entry of \<open>1.1.1.1:8080\<close> is lost with it.
\<close>

theorem remove_drops_other_entry:
  "spec_load_blacklist two_blacklisted = {''1.1.1.1:8080'', ''1.1.1.1:80''} \<and>
   remove_from_blacklist ''1.1.1.1:80'' two_blacklisted
     = (True, two_blacklisted\<lparr>blacklist_file := Some [], valid_proxy_pool_file := None\<rparr>) \<and>
   spec_load_blacklist (snd (remove_from_blacklist ''1.1.1.1:80'' two_blacklisted)) = {}"
  by (simp add: remove_from_blacklist_def two_blacklisted_file spec_load_blacklist_loop
        text_defs invalidate_cache_def Let_def insert_commute)

subsection \<open>C8: normalizing twice\<close>

text \<open>
  C8 on a proxy given by a bracketed IPv6 address, for every library that accepts
  \<open>[::1]:8080\<close> as a network location: the normalizer rebuilds the URL from the host name
  without its brackets, and rejects that URL when it is given it again.
\<close>

theorem normalize_twice_ipv6:
  "bracketed_ok ''[::1]:8080'' \<Longrightarrow>
   normalize_proxy_url bracketed_ok ''[::1]:8080'' = Some ''http://::1:8080'' \<and>
   normalize_proxy_url bracketed_ok ''http://::1:8080'' = None"
  by (simp add: url_defs str_nat.simps)

text \<open>The same with a library that checks nothing between the brackets.\<close>

theorem normalize_twice_ipv6_witness:
  "unchecked_brackets ''[::1]:8080'' \<and>
   normalize_proxy_url unchecked_brackets ''[::1]:8080'' = Some ''http://::1:8080'' \<and>
   normalize_proxy_url unchecked_brackets ''http://::1:8080'' = None"
  using normalize_twice_ipv6[of unchecked_brackets] by (simp add: unchecked_brackets_def)

subsection \<open>C9: what the normalizer rejects\<close>

lemma normalize_none_cases:
  assumes "urlparse ok (with_scheme proxy_line) = Inr parsed"
      and "fst (hostinfo parsed) = [] \<or> snd (hostinfo parsed) = None \<or>
           (\<exists>p. snd (hostinfo parsed) = Some p \<and>
                \<not> (list_all ascii_digit p \<and> 1 \<le> int_of_digits p \<and> int_of_digits p \<le> 65535))"
  shows "normalize_proxy_url ok proxy_line = None"
  using assms
  by (auto simp: normalize_proxy_url_def with_scheme_def Let_def hostname_def port_def
           split: option.splits sum.splits prod.splits if_splits)

text \<open>
  C9. \<open>_normalize_proxy_url\<close> returns \<open>None\<close> on \<open>256.1.1.1:80\<close>, \<open>host:0\<close>, \<open>host:70000\<close>
  and the empty string; and in general whenever, in the URL it parses, the host is
  empty, the port is missing, or the port is not a number from 1 to 65535.
\<close>

theorem normalize_rejects:
  "normalize_proxy_url ok ''256.1.1.1:80'' = None \<and>
   normalize_proxy_url ok ''host:0'' = None \<and>
   normalize_proxy_url ok ''host:70000'' = None \<and>
   normalize_proxy_url ok '''' = None \<and>
   (\<forall>proxy_line parsed.
      urlparse ok (with_scheme proxy_line) = Inr parsed \<and>
      (fst (hostinfo parsed) = [] \<or> snd (hostinfo parsed) = None \<or>
       (\<exists>p. snd (hostinfo parsed) = Some p \<and>
            \<not> (list_all ascii_digit p \<and> 1 \<le> int_of_digits p \<and> int_of_digits p \<le> 65535)))
      \<longrightarrow> normalize_proxy_url ok proxy_line = None)"
proof -
  have 1: "normalize_proxy_url ok ''256.1.1.1:80'' = None" by (simp add: url_defs)
  have 2: "normalize_proxy_url ok ''host:0'' = None" by (simp add: url_defs)
  have 3: "normalize_proxy_url ok ''host:70000'' = None" by (simp add: url_defs)
  have 4: "normalize_proxy_url ok '''' = None" by (simp add: url_defs)
  show ?thesis using 1 2 3 4 normalize_none_cases by blast
qed

text \<open>The general part of C9 on \<open>host:99999\<close>, a port above 65535.\<close>

theorem normalize_rejects_witness:
  "urlparse unchecked_brackets (with_scheme ''host:99999'')
     = Inr \<lparr>scheme = ''http'', netloc = ''host:99999''\<rparr> \<and>
   snd (hostinfo \<lparr>scheme = ''http'', netloc = ''host:99999''\<rparr>) = Some ''99999'' \<and>
   65535 < int_of_digits ''99999'' \<and>
   normalize_proxy_url unchecked_brackets ''host:99999'' = None"
proof -
  have a: "urlparse unchecked_brackets (with_scheme ''host:99999'')
     = Inr \<lparr>scheme = ''http'', netloc = ''host:99999''\<rparr>"
    by (simp add: url_defs with_scheme_def)
  have b: "snd (hostinfo \<lparr>scheme = ''http'', netloc = ''host:99999''\<rparr>) = Some ''99999''"
    by (simp add: url_defs)
  have c: "65535 < int_of_digits ''99999''" by (simp add: int_of_digits_def)
  have d: "normalize_proxy_url unchecked_brackets ''host:99999'' = None"
    using a b c
      normalize_rejects[of unchecked_brackets, THEN conjunct2, THEN conjunct2, THEN conjunct2,
        THEN conjunct2, rule_format, of "''host:99999''"
        "\<lparr>scheme = ''http'', netloc = ''host:99999''\<rparr>"]
    by simp
  show ?thesis using a b c d by blast
qed

subsection \<open>C10: what the statistics count\<close>

text \<open>
  As stated, C10 fails while a snapshot younger than five minutes exists: \<open>get_stats\<close>
  takes the valid count from \<open>load_valid_proxies\<close>, which then serves the snapshot's list
  and computes nothing. In \<open>stale_cache\<close> the one proxy of the pool is blacklisted, so that
  pool minus blacklist is empty, but the snapshot still lists it: one minute after the
  save the valid count is 1 and the rate is 100 percent.
\<close>

theorem stats_valid_count_counterexample:
  "cache_fresh 1714557660 stale_cache \<and>
   spec_load_pool stale_cache - spec_load_blacklist stale_cache = {} \<and>
   card (spec_load_pool stale_cache - spec_load_blacklist stale_cache) = 0 \<and>
   valid_count (get_stats 1714557660 stale_cache) = 1 \<and>
   pool_total (get_stats 1714557660 stale_cache) = 1 \<and>
   success_rate (get_stats 1714557660 stale_cache) = Percent 100"
proof -
  have pf: "proxy_pool_file stale_cache = Some (''http://10.0.0.1:8080'' @ [CHR 0x0A])"
    by (simp add: stale_cache_def one_proxy_pool_def no_files_def add_to_blacklist_def
          invalidate_cache_def save_valid_proxy_cache_def Let_def)
  have fresh: "cache_fresh 1714557660 stale_cache"
    by (simp add: cache_fresh_def stale_cache_files)
  have listed: "cached_list stale_cache = [''http://10.0.0.1:8080'']"
    by (simp add: cached_list_def stale_cache_files)
  have pool: "spec_load_pool stale_cache = {''http://10.0.0.1:8080''}"
    by (simp add: spec_load_pool_loop pf text_defs)
  have empty: "spec_load_pool stale_cache - spec_load_blacklist stale_cache = {}"
    using stale_listed by (simp add: pool)
  have total: "length (filter counted (read_lines (proxy_pool_file stale_cache))) = 1"
    by (simp add: pf counted_def text_defs)
  have valid: "length (fst (load_valid_proxies 1714557660 stale_cache)) = 1"
    by (simp add: load_valid_proxies_cases fresh listed)
  have v: "valid_count (get_stats 1714557660 stale_cache) = 1"
    using valid by (simp add: get_stats_def Let_def)
  have t: "pool_total (get_stats 1714557660 stale_cache) = 1"
    using total by (simp add: get_stats_def Let_def)
  have r: "success_rate (get_stats 1714557660 stale_cache) = Percent 100"
    using valid total by (simp add: get_stats_def Let_def)
  have none: "card (spec_load_pool stale_cache - spec_load_blacklist stale_cache) = 0"
    unfolding empty by simp
  show ?thesis using fresh empty none v t r by blast
qed

text \<open>
  C10, amended. \<open>pool_total\<close> counts, with multiplicity, the lines of the pool file whose
  stripped text is not empty and whose raw text does not start with \<open>#\<close>. The valid count
  is the length of the list that \<open>load_valid_proxies\<close> returns: while a snapshot younger
  than five minutes exists it is the length of the snapshot's list, whatever the pool and
  the blacklist hold by then, and only otherwise the size of the set pool minus
  blacklist. \<open>success_rate\<close> is the valid count over \<open>pool_total\<close>, in percent, or \<open>0%\<close>
  when \<open>pool_total\<close> is 0. A pool file that repeats a proxy and holds an indented comment
  line has, with no snapshot, a \<open>pool_total\<close> of 3 for one distinct proxy, so that
  \<open>success_rate\<close> is a third of a hundred where all of the distinct pool is valid.
\<close>

theorem stats_count_lines_not_endpoints:
  "pool_total (get_stats now pm)
     = length (filter (\<lambda>line. strip line \<noteq> [] \<and> \<not> startswith line ''#'')
         (read_lines (proxy_pool_file pm))) \<and>
   valid_count (get_stats now pm) = length (fst (load_valid_proxies now pm)) \<and>
   valid_count (get_stats now pm)
     = (if cache_fresh now pm then length (cached_list pm)
        else card (spec_load_pool pm - spec_load_blacklist pm)) \<and>
   success_rate (get_stats now pm)
     = (if pool_total (get_stats now pm) > 0
        then Percent (real (valid_count (get_stats now pm))
                        / real (pool_total (get_stats now pm)) * 100)
        else ZeroPercent) \<and>
   pool_total (get_stats 1714557600 repeating_pool) = 3 \<and>
   valid_count (get_stats 1714557600 repeating_pool) = 1 \<and>
   success_rate (get_stats 1714557600 repeating_pool) = Percent (100 / 3) \<and>
   real (card (spec_load_pool repeating_pool - spec_load_blacklist repeating_pool))
     / real (card (spec_load_pool repeating_pool)) * 100 = 100"
proof -
  have counted: "counted = (\<lambda>line. strip line \<noteq> [] \<and> \<not> startswith line ''#'')"
    by (rule ext) (simp add: counted_def)
  have 1: "pool_total (get_stats now pm)
     = length (filter (\<lambda>line. strip line \<noteq> [] \<and> \<not> startswith line ''#'')
         (read_lines (proxy_pool_file pm)))" for now pm
    by (simp add: get_stats_def Let_def counted)
  have card: "length (calculate_valid_proxies pm)
                = card (spec_load_pool pm - spec_load_blacklist pm)" for pm
    using distinct_card[OF distinct_calculate_valid_proxies[of pm]]
    by (simp add: set_calculate_valid_proxies)
  have 0: "valid_count (get_stats now pm) = length (fst (load_valid_proxies now pm))"
    by (simp add: get_stats_def Let_def)
  have 2: "valid_count (get_stats now pm)
     = (if cache_fresh now pm then length (cached_list pm)
        else card (spec_load_pool pm - spec_load_blacklist pm))" for now pm
    by (simp add: get_stats_def Let_def load_valid_proxies_cases card)
  have rate: "success_rate (get_stats now pm)
     = (if pool_total (get_stats now pm) > 0
        then Percent (real (valid_count (get_stats now pm))
                        / real (pool_total (get_stats now pm)) * 100)
        else ZeroPercent)"
    by (simp add: get_stats_def Let_def)
  have stale: "\<not> cache_fresh 1714557600 repeating_pool"
    by (simp add: cache_fresh_def repeating_pool_def no_files_def)
  have pool: "spec_load_pool repeating_pool = {''a:1''}"
    by (simp add: spec_load_pool_loop repeating_pool_def no_files_def text_defs)
  have black: "spec_load_blacklist repeating_pool = {}"
    by (simp add: spec_load_blacklist_loop repeating_pool_def no_files_def read_lines_def)
  have 3: "pool_total (get_stats 1714557600 repeating_pool) = 3"
    unfolding 1 by (simp add: repeating_pool_def no_files_def text_defs)
  have 4: "valid_count (get_stats 1714557600 repeating_pool) = 1"
    unfolding 2 using stale by (simp add: pool black)
  have 5: "success_rate (get_stats 1714557600 repeating_pool) = Percent (100 / 3)"
    using 3 4 by (simp add: get_stats_def Let_def)
  have 6: "real (card (spec_load_pool repeating_pool - spec_load_blacklist repeating_pool))
     / real (card (spec_load_pool repeating_pool)) * 100 = 100"
    by (simp add: pool black)
  show ?thesis using 0 1 2 rate 3 4 5 6 by blast
qed

text \<open>
  The amended C10 on a pool of two proxies with a snapshot that lists one of them: one
  hundred seconds after the save the valid count is 1, the length of the snapshot's list,
  and the rate 50 percent; four hundred seconds after it the valid count is 2, the size
  of pool minus blacklist, and the rate 100 percent.
\<close>

theorem stats_count_lines_not_endpoints_witness:
  "cache_fresh 1714557700 cached_pool \<and>
   valid_count (get_stats 1714557700 cached_pool) = 1 \<and>
   success_rate (get_stats 1714557700 cached_pool) = Percent 50 \<and>
   \<not> cache_fresh 1714558000 cached_pool \<and>
   valid_count (get_stats 1714558000 cached_pool) = 2 \<and>
   success_rate (get_stats 1714558000 cached_pool) = Percent 100 \<and>
   pool_total (get_stats 1714557700 cached_pool) = 2"
proof -
  have f: "cache_fresh 1714557700 cached_pool"
    by (simp add: cache_fresh_def cached_pool_def save_valid_proxy_cache_def)
  have l: "cached_list cached_pool = [''b:2'']"
    by (simp add: cached_list_def cached_pool_def save_valid_proxy_cache_def)
  have s: "\<not> cache_fresh 1714558000 cached_pool"
    by (simp add: cache_fresh_def cached_pool_def save_valid_proxy_cache_def)
  have c: "card (spec_load_pool cached_pool - spec_load_blacklist cached_pool) = 2"
    using distinct_card[OF distinct_calculate_valid_proxies[of cached_pool]]
    by (simp add: set_calculate_valid_proxies[symmetric] calculate_cached_pool)
  have pf: "proxy_pool_file cached_pool = Some (''a:1'' @ [CHR 0x0A] @ ''b:2'' @ [CHR 0x0A])"
    by (simp add: cached_pool_def small_pool_def no_files_def save_valid_proxy_cache_def)
  have n: "length (filter (\<lambda>line. strip line \<noteq> [] \<and> \<not> startswith line ''#'')
             (read_lines (proxy_pool_file cached_pool))) = 2"
    by (simp add: pf text_defs)
  note a = stats_count_lines_not_endpoints[of 1714557700 cached_pool]
  note b = stats_count_lines_not_endpoints[of 1714558000 cached_pool]
  have t1: "pool_total (get_stats 1714557700 cached_pool) = 2"
    using a[THEN conjunct1] n by simp
  have t2: "pool_total (get_stats 1714558000 cached_pool) = 2"
    using b[THEN conjunct1] n by simp
  have v1: "valid_count (get_stats 1714557700 cached_pool) = 1"
    using a[THEN conjunct2, THEN conjunct2, THEN conjunct1] f l by simp
  have v2: "valid_count (get_stats 1714558000 cached_pool) = 2"
    using b[THEN conjunct2, THEN conjunct2, THEN conjunct1] s c by simp
  have r1: "success_rate (get_stats 1714557700 cached_pool) = Percent 50"
    using a[THEN conjunct2, THEN conjunct2, THEN conjunct2, THEN conjunct1] t1 v1 by simp
  have r2: "success_rate (get_stats 1714558000 cached_pool) = Percent 100"
    using b[THEN conjunct2, THEN conjunct2, THEN conjunct2, THEN conjunct1] t2 v2 by simp
  show ?thesis using f s t1 v1 v2 r1 r2 by blast
qed

end
